theory Spec2Isabelle
  imports Main "HOL-Library.Word"
begin

section \<open>JavaScript strings\<close>

text \<open>
  A JavaScript string is a sequence of 16-bit code units. String literals of the source
  are ASCII and are written \<open>js ''...''\<close>.
\<close>

type_synonym jsstring = "16 word list"

definition js :: "string \<Rightarrow> jsstring" where
  "js s = map (\<lambda>c. of_nat (of_char c)) s"

text \<open>
  The decimal rendering of a non-negative integer, as the template literal
  \<^verbatim>\<open>`tab-${Date.now()}`\<close> produces it.
\<close>

fun decimal :: "nat \<Rightarrow> jsstring" where
  "decimal n = (if n < 10 then [of_nat (48 + n)] else decimal (n div 10) @ [of_nat (48 + n mod 10)])"

declare decimal.simps [simp del]

section \<open>Data model of the per-tab browser (second \<open>BrowserState\<close> of app.js)\<close>

text \<open>
  A tab object literal of \<open>addTab\<close>. The field \<open>iframe\<close> is \<open>null\<close> or a reference to an
  iframe element; elements live in the store \<open>iframes\<close> of the browser and a reference is
  an index into it.
\<close>

record tab =
  tab_id :: jsstring
  title :: jsstring
  url :: jsstring
  timestamp :: nat
  iframe :: "nat option"
  history :: "jsstring list"
  historyIndex :: int

text \<open>The value of a \<open>style.display\<close> property; \<open>Unset\<close> is the empty inline style.\<close>

datatype css_display = Unset | DNone | DFlex | DBlock

text \<open>
  An iframe element made by \<open>createTabIframe\<close>, with the variables its closures share:
  \<open>loadTimeout\<close> and \<open>hasLoaded\<close> are the \<open>let\<close> variables of \<open>createTabIframe\<close>,
  \<open>hasLoaded_prop\<close> is the property \<open>_hasLoaded\<close> that \<open>navigateToUrl\<close> writes, and
  \<open>owner\<close> is the \<open>id\<close> of the tab object the closures captured (a tab's \<open>id\<close> is
  never assigned after creation). \<open>attached\<close> says whether the element has a parent node.
\<close>

record iframe_obj =
  src :: jsstring
  display :: css_display
  attached :: bool
  loadTimeout :: "nat option"
  hasLoaded :: bool
  hasLoaded_prop :: "bool option"
  owner :: jsstring

text \<open>
  The three closures passed to \<open>setTimeout\<close>: the check 500 ms after a load event, the
  final check 2000 ms after that (it captured the parsed URL's host name), and the
  10 s load timeout (it captured the URL being loaded).
\<close>

datatype callback =
  CbSettle nat
| CbRecheck nat jsstring
| CbTimeout nat jsstring

text \<open>A tab element of the tab bar: its \<open>data-tab-id\<close>, its title text, its \<open>active\<close> class.\<close>

record tab_element =
  el_id :: jsstring
  el_title :: jsstring
  el_active :: bool

text \<open>
  The whole state: the fields of \<open>browserState\<close>, the store of iframe elements, the
  pending timers (identifier, delay in ms, closure) and the parts of the page the script
  writes.
\<close>

record browser =
  tabs :: "tab list"
  activeTabId :: "jsstring option"
  maxTabs :: nat
  iframes :: "iframe_obj list"
  timers :: "(nat \<times> nat \<times> callback) list"
  nextTimer :: nat
  loadingActive :: bool
  errorDisplay :: css_display
  errorText :: jsstring
  errorUrl :: "jsstring option"
  welcomeDisplay :: css_display
  iframeContainerDisplay :: css_display
  addressBarValue :: jsstring
  backDisabled :: bool
  forwardDisabled :: bool
  tabBar :: "tab_element list"

text \<open>A value returned by \<open>goBack\<close>/\<open>goForward\<close>: \<open>null\<close>, \<open>undefined\<close> or a string.\<close>

datatype jsresult = Null | Undefined | Str jsstring

section \<open>Array helpers\<close>

text \<open>\<open>Array.prototype.findIndex\<close>; \<open>None\<close> stands for \<open>-1\<close>.\<close>

fun findIndex :: "('a \<Rightarrow> bool) \<Rightarrow> 'a list \<Rightarrow> nat option" where
  "findIndex P [] = None"
| "findIndex P (x # xs) =
     (if P x then Some 0 else (case findIndex P xs of None \<Rightarrow> None | Some i \<Rightarrow> Some (Suc i)))"

text \<open>
  \<open>tabs.find(t => t.id === tabId)\<close> yields a reference to the first matching tab object;
  assigning to a field of it changes that element of the array.
\<close>

definition find_tab :: "tab list \<Rightarrow> jsstring \<Rightarrow> tab option" where
  "find_tab ts i = List.find (\<lambda>t. tab_id t = i) ts"

fun update_tab :: "jsstring \<Rightarrow> (tab \<Rightarrow> tab) \<Rightarrow> tab list \<Rightarrow> tab list" where
  "update_tab i f [] = []"
| "update_tab i f (t # ts) = (if tab_id t = i then f t # ts else t # update_tab i f ts)"

text \<open>\<open>arr.slice(0, e)\<close>: a negative end counts from the end of the array.\<close>

definition slice0 :: "'a list \<Rightarrow> int \<Rightarrow> 'a list" where
  "slice0 xs e = (if e < 0 then take (nat (int (length xs) + e)) xs else take (nat e) xs)"

text \<open>\<open>arr[i]\<close>: \<open>undefined\<close> outside the array.\<close>

definition index :: "jsstring list \<Rightarrow> int \<Rightarrow> jsresult" where
  "index xs i = (if 0 \<le> i \<and> i < int (length xs) then Str (xs ! nat i) else Undefined)"

section \<open>\<open>BrowserState\<close>\<close>

definition newBrowserState :: browser where
  "newBrowserState = \<lparr> tabs = [], activeTabId = None, maxTabs = 3, iframes = [], timers = [],
     nextTimer = 1, loadingActive = False, errorDisplay = Unset, errorText = [],
     errorUrl = None, welcomeDisplay = Unset, iframeContainerDisplay = Unset,
     addressBarValue = [], backDisabled = False, forwardDisabled = False, tabBar = [] \<rparr>"

text \<open>
  \<open>addTab(url)\<close>; \<open>now\<close> and \<open>now'\<close> are the two readings of \<open>Date.now()\<close>. The
  \<open>alert\<close> of the rejecting branch changes no state.
\<close>

definition new_tab :: "jsstring \<Rightarrow> nat \<Rightarrow> nat \<Rightarrow> tab" where
  "new_tab u now now' = \<lparr> tab_id = js ''tab-'' @ decimal now, title = js ''New Tab'',
     url = (if u = [] then js ''about:blank'' else u), timestamp = now', iframe = None,
     history = [], historyIndex = - 1 \<rparr>"

definition addTab :: "browser \<Rightarrow> jsstring \<Rightarrow> nat \<Rightarrow> nat \<Rightarrow> browser \<times> tab option" where
  "addTab b u now now' =
     (if length (tabs b) \<ge> maxTabs b then (b, None)
      else (b\<lparr>tabs := tabs b @ [new_tab u now now']\<rparr>, Some (new_tab u now now')))"

text \<open>\<open>parentNode.removeChild(iframe)\<close>, done when the element has a parent.\<close>

definition detach :: "nat option \<Rightarrow> iframe_obj list \<Rightarrow> iframe_obj list" where
  "detach r fs = (case r of None \<Rightarrow> fs
     | Some k \<Rightarrow> (if k < length fs \<and> attached (fs ! k) then fs[k := (fs ! k)\<lparr>attached := False\<rparr>] else fs))"

definition removeTab :: "browser \<Rightarrow> jsstring \<Rightarrow> browser" where
  "removeTab b tabId =
     (case findIndex (\<lambda>t. tab_id t = tabId) (tabs b) of
        None \<Rightarrow> b
      | Some i \<Rightarrow>
          (let ts = take i (tabs b) @ drop (Suc i) (tabs b);
               b' = b\<lparr>iframes := detach (iframe (tabs b ! i)) (iframes b), tabs := ts\<rparr>
           in if activeTabId b = Some tabId
              then b'\<lparr>activeTabId := (if length ts > 0 then Some (tab_id (ts ! 0)) else None)\<rparr>
              else b'))"

definition getActiveTab :: "browser \<Rightarrow> tab option" where
  "getActiveTab b = (case activeTabId b of None \<Rightarrow> None | Some i \<Rightarrow> find_tab (tabs b) i)"

definition updateTabUrl :: "browser \<Rightarrow> jsstring \<Rightarrow> jsstring \<Rightarrow> browser" where
  "updateTabUrl b tabId u = b\<lparr>tabs := update_tab tabId (\<lambda>t. t\<lparr>url := u\<rparr>) (tabs b)\<rparr>"

definition updateTabTitle :: "browser \<Rightarrow> jsstring \<Rightarrow> jsstring \<Rightarrow> browser" where
  "updateTabTitle b tabId ttl =
     b\<lparr>tabs := update_tab tabId (\<lambda>t. t\<lparr>title := (if ttl = [] then js ''Untitled'' else ttl)\<rparr>) (tabs b)\<rparr>"

subsection \<open>Per-tab history\<close>

definition push_history :: "jsstring \<Rightarrow> tab \<Rightarrow> tab" where
  "push_history u t = (let h = slice0 (history t) (historyIndex t + 1) @ [u]
               in t\<lparr>history := h, historyIndex := int (length h) - 1\<rparr>)"

definition addToHistory :: "browser \<Rightarrow> jsstring \<Rightarrow> jsstring \<Rightarrow> browser" where
  "addToHistory b tabId u = b\<lparr>tabs := update_tab tabId (push_history u) (tabs b)\<rparr>"

definition canGoBack :: "browser \<Rightarrow> jsstring \<Rightarrow> bool" where
  "canGoBack b tabId =
     (case find_tab (tabs b) tabId of None \<Rightarrow> False | Some t \<Rightarrow> historyIndex t > 0)"

definition canGoForward :: "browser \<Rightarrow> jsstring \<Rightarrow> bool" where
  "canGoForward b tabId =
     (case find_tab (tabs b) tabId of None \<Rightarrow> False
      | Some t \<Rightarrow> historyIndex t < int (length (history t)) - 1)"

definition goBack :: "browser \<Rightarrow> jsstring \<Rightarrow> browser \<times> jsresult" where
  "goBack b tabId =
     (case find_tab (tabs b) tabId of
        None \<Rightarrow> (b, Null)
      | Some t \<Rightarrow>
          (if canGoBack b tabId
           then (b\<lparr>tabs := update_tab tabId (\<lambda>t. t\<lparr>historyIndex := historyIndex t - 1\<rparr>) (tabs b)\<rparr>,
                 index (history t) (historyIndex t - 1))
           else (b, Null)))"

definition goForward :: "browser \<Rightarrow> jsstring \<Rightarrow> browser \<times> jsresult" where
  "goForward b tabId =
     (case find_tab (tabs b) tabId of
        None \<Rightarrow> (b, Null)
      | Some t \<Rightarrow>
          (if canGoForward b tabId
           then (b\<lparr>tabs := update_tab tabId (\<lambda>t. t\<lparr>historyIndex := historyIndex t + 1\<rparr>) (tabs b)\<rparr>,
                 index (history t) (historyIndex t + 1))
           else (b, Null)))"

section \<open>The sanitizer\<close>

text \<open>
  White space as \<open>String.prototype.trim\<close> and the regular expression class \<open>\s\<close> know it:
  the WhiteSpace and LineTerminator code points of ECMAScript.
\<close>

definition isSpace :: "16 word \<Rightarrow> bool" where
  "isSpace c = (c \<in> {0x9, 0xA, 0xB, 0xC, 0xD, 0x20, 0xA0, 0x1680, 0x2028, 0x2029, 0x202F,
     0x205F, 0x3000, 0xFEFF} \<or> (0x2000 \<le> c \<and> c \<le> 0x200A))"

definition trim :: "jsstring \<Rightarrow> jsstring" where
  "trim s = rev (dropWhile isSpace (rev (dropWhile isSpace s)))"

fun startsWith :: "jsstring \<Rightarrow> jsstring \<Rightarrow> bool" where
  "startsWith s [] = True"
| "startsWith [] (p # ps) = False"
| "startsWith (c # cs) (p # ps) = (c = p \<and> startsWith cs ps)"

text \<open>
  \<open>new URL(s)\<close> is the platform's parser: it is a parameter \<open>parseURL\<close>, which gives the
  \<open>hostname\<close> of the parsed URL, or \<open>None\<close> where the constructor throws a TypeError.
\<close>

definition isValidUrl :: "(jsstring \<Rightarrow> jsstring option) \<Rightarrow> jsstring \<Rightarrow> bool" where
  "isValidUrl parseURL string =
     (if startsWith string (js ''http://'') \<or> startsWith string (js ''https://'')
      then (case parseURL string of None \<Rightarrow> False | Some h \<Rightarrow> True)
      else if 0x2E \<in> set string \<and> 0x20 \<notin> set string \<and> \<not> list_ex isSpace string
      then (case parseURL (js ''https://'' @ string) of None \<Rightarrow> False | Some h \<Rightarrow> True)
      else False)"

text \<open>
  \<open>encodeURIComponent\<close>: the characters \<open>A-Z a-z 0-9 - _ . ! ~ * ' ( )\<close> stay, every
  other code point is written as the bytes of its UTF-8 form, each as \<open>%XX\<close>; a
  surrogate code unit that is not part of a pair throws a URIError (\<open>None\<close>).
\<close>

definition unreserved :: "16 word \<Rightarrow> bool" where
  "unreserved c = ((0x41 \<le> c \<and> c \<le> 0x5A) \<or> (0x61 \<le> c \<and> c \<le> 0x7A) \<or> (0x30 \<le> c \<and> c \<le> 0x39) \<or>
     c \<in> {0x2D, 0x5F, 0x2E, 0x21, 0x7E, 0x2A, 0x27, 0x28, 0x29})"

definition utf8 :: "nat \<Rightarrow> nat list" where
  "utf8 cp =
     (if cp < 0x80 then [cp]
      else if cp < 0x800 then [0xC0 + cp div 64, 0x80 + cp mod 64]
      else if cp < 0x10000 then [0xE0 + cp div 4096, 0x80 + cp div 64 mod 64, 0x80 + cp mod 64]
      else [0xF0 + cp div 262144, 0x80 + cp div 4096 mod 64, 0x80 + cp div 64 mod 64,
            0x80 + cp mod 64])"

definition hexDigit :: "nat \<Rightarrow> 16 word" where
  "hexDigit n = (if n < 10 then of_nat (48 + n) else of_nat (55 + n))"

definition percent :: "nat list \<Rightarrow> jsstring" where
  "percent bs = concat (map (\<lambda>b. [0x25, hexDigit (b div 16), hexDigit (b mod 16)]) bs)"

definition isHigh :: "16 word \<Rightarrow> bool" where
  "isHigh c = (0xD800 \<le> c \<and> c \<le> 0xDBFF)"

definition isLow :: "16 word \<Rightarrow> bool" where
  "isLow c = (0xDC00 \<le> c \<and> c \<le> 0xDFFF)"

fun encodeURIComponent :: "jsstring \<Rightarrow> jsstring option" where
  "encodeURIComponent [] = Some []"
| "encodeURIComponent (c # cs) =
     (if unreserved c then map_option (\<lambda>r. c # r) (encodeURIComponent cs)
      else if isLow c then None
      else if isHigh c then
        (case cs of
           [] \<Rightarrow> None
         | d # ds \<Rightarrow>
             (if isLow d
              then map_option
                     (\<lambda>r. percent (utf8 ((unat c - 0xD800) * 0x400 + (unat d - 0xDC00) + 0x10000)) @ r)
                     (encodeURIComponent ds)
              else None))
      else map_option (\<lambda>r. percent (utf8 (unat c)) @ r) (encodeURIComponent cs))"

datatype error = URIError

definition sanitizeUrl :: "(jsstring \<Rightarrow> jsstring option) \<Rightarrow> jsstring \<Rightarrow> error + jsstring" where
  "sanitizeUrl parseURL input0 =
     (let input = trim input0
      in if input = [] then Inr (js ''https://www.google.com'')
         else if startsWith input (js ''http://'') \<or> startsWith input (js ''https://'') then Inr input
         else if isValidUrl parseURL input then Inr (js ''https://'' @ input)
         else (case encodeURIComponent input of
                 None \<Rightarrow> Inl URIError
               | Some e \<Rightarrow> Inr (js ''https://www.google.com/search?q='' @ e)))"

text \<open>
  The third rule in the words of the specification: the text contains a dot, has no white
  space in it, and is accepted by the URL parser once prefixed with \<open>https://\<close>.
\<close>

definition hostnameLike :: "(jsstring \<Rightarrow> jsstring option) \<Rightarrow> jsstring \<Rightarrow> bool" where
  "hostnameLike parseURL s =
     (0x2E \<in> set s \<and> \<not> list_ex isSpace s \<and> parseURL (js ''https://'' @ s) \<noteq> None)"

text \<open>A string is well formed when every surrogate code unit is part of a pair.\<close>

fun wellFormed :: "jsstring \<Rightarrow> bool" where
  "wellFormed [] = True"
| "wellFormed [c] = (\<not> isHigh c \<and> \<not> isLow c)"
| "wellFormed (c # d # ds) =
     (if isHigh c then isLow d \<and> wellFormed ds else \<not> isLow c \<and> wellFormed (d # ds))"

section \<open>The page\<close>

text \<open>
  The elements that \<open>getElementById\<close> looks up (\<open>errorMessage\<close> with its \<open>#errorText\<close>,
  \<open>welcomeScreen\<close>, \<open>iframeContainer\<close>, \<open>addressBar\<close>, the buttons) are taken to exist.
  The two classes that \<open>showLoading\<close> sets are always set together and are one field.
\<close>

definition showLoading :: "browser \<Rightarrow> browser" where
  "showLoading b = b\<lparr>loadingActive := True\<rparr>"

definition hideLoading :: "browser \<Rightarrow> browser" where
  "hideLoading b = b\<lparr>loadingActive := False\<rparr>"

definition showWelcomeScreen :: "browser \<Rightarrow> browser" where
  "showWelcomeScreen b = b\<lparr>welcomeDisplay := DFlex, iframeContainerDisplay := DNone, errorDisplay := DNone\<rparr>"

definition hideWelcomeScreen :: "browser \<Rightarrow> browser" where
  "hideWelcomeScreen b = b\<lparr>welcomeDisplay := DNone, iframeContainerDisplay := DBlock\<rparr>"

definition showError :: "browser \<Rightarrow> jsstring \<Rightarrow> jsstring \<Rightarrow> browser" where
  "showError b message u =
     b\<lparr>errorDisplay := DFlex,
       errorText := (if message = []
                     then js ''This website blocks embedding in iframes for security reasons.''
                     else message),
       iframeContainerDisplay := DNone,
       welcomeDisplay := DNone,
       errorUrl := (if u = [] then errorUrl b else Some u)\<rparr>"

definition hideError :: "browser \<Rightarrow> browser" where
  "hideError b = b\<lparr>errorDisplay := DNone\<rparr>"

subsection \<open>Timers\<close>

text \<open>
  \<open>setTimeout\<close> gives a new positive identifier (the first is 1, so a held identifier is
  truthy and \<open>if (loadTimeout)\<close> tests whether one is held); \<open>clearTimeout\<close> drops the
  timer with that identifier, if it is pending.
\<close>

definition setTimeout :: "browser \<Rightarrow> callback \<Rightarrow> nat \<Rightarrow> browser \<times> nat" where
  "setTimeout b cb delay =
     (b\<lparr>timers := timers b @ [(nextTimer b, delay, cb)], nextTimer := nextTimer b + 1\<rparr>, nextTimer b)"

definition clearTimeout :: "browser \<Rightarrow> nat \<Rightarrow> browser" where
  "clearTimeout b tid = b\<lparr>timers := filter (\<lambda>x. fst x \<noteq> tid) (timers b)\<rparr>"

definition update_iframe :: "nat \<Rightarrow> (iframe_obj \<Rightarrow> iframe_obj) \<Rightarrow> browser \<Rightarrow> browser" where
  "update_iframe r f b = b\<lparr>iframes := (iframes b)[r := f (iframes b ! r)]\<rparr>"

subsection \<open>Tab bar\<close>

definition createTabElement :: "tab \<Rightarrow> tab_element" where
  "createTabElement t = \<lparr> el_id = tab_id t, el_title = title t, el_active = False \<rparr>"

definition updateTabBar :: "browser \<Rightarrow> browser" where
  "updateTabBar b =
     b\<lparr>tabBar := map (\<lambda>e. case find_tab (tabs b) (el_id e) of
                             None \<Rightarrow> e
                           | Some t \<Rightarrow> e\<lparr>el_title := title t\<rparr>) (tabBar b)\<rparr>"

definition updateNavButtons :: "browser \<Rightarrow> browser" where
  "updateNavButtons b =
     (case getActiveTab b of
        Some t \<Rightarrow> b\<lparr>backDisabled := \<not> canGoBack b (tab_id t),
                     forwardDisabled := \<not> canGoForward b (tab_id t)\<rparr>
      | None \<Rightarrow> b\<lparr>backDisabled := True, forwardDisabled := True\<rparr>)"

text \<open>\<open>tabBar.querySelector(`[data-tab-id="${tabId}"]`)\<close> and \<open>remove()\<close>: the first match goes.\<close>

fun remove_element :: "jsstring \<Rightarrow> tab_element list \<Rightarrow> tab_element list" where
  "remove_element i [] = []"
| "remove_element i (e # es) = (if el_id e = i then es else e # remove_element i es)"

subsection \<open>Iframes and their load monitoring\<close>

text \<open>
  \<open>createTabIframe(tab)\<close>: a new element, hidden, appended to the container, with
  \<open>loadTimeout = null\<close> and \<open>hasLoaded = false\<close>; \<open>tab.iframe\<close> is set to it.
\<close>

definition createTabIframe :: "browser \<Rightarrow> jsstring \<Rightarrow> browser \<times> nat" where
  "createTabIframe b tabId =
     (b\<lparr>iframes := iframes b @ [\<lparr> src = [], display = DNone, attached = True, loadTimeout = None,
                                   hasLoaded = False, hasLoaded_prop = None, owner = tabId \<rparr>],
        tabs := update_tab tabId (\<lambda>t. t\<lparr>iframe := Some (length (iframes b))\<rparr>) (tabs b)\<rparr>,
      length (iframes b))"

text \<open>\<open>if (loadTimeout) { clearTimeout(loadTimeout); loadTimeout = null; }\<close> of both listeners.\<close>

definition cancelLoadTimeout :: "browser \<Rightarrow> nat \<Rightarrow> browser" where
  "cancelLoadTimeout b r =
     (case loadTimeout (iframes b ! r) of
        None \<Rightarrow> b
      | Some tid \<Rightarrow> update_iframe r (\<lambda>f. f\<lparr>loadTimeout := None\<rparr>) (clearTimeout b tid))"

text \<open>The listener of the iframe's \<open>load\<close> event.\<close>

definition onLoad :: "browser \<Rightarrow> nat \<Rightarrow> browser" where
  "onLoad b r =
     (let b1 = update_iframe r (\<lambda>f. f\<lparr>hasLoaded := True\<rparr>) b;
          b2 = cancelLoadTimeout b1 r;
          b3 = hideLoading b2
      in fst (setTimeout b3 (CbSettle r) 500))"

text \<open>The listener of the iframe's \<open>error\<close> event.\<close>

definition onError :: "browser \<Rightarrow> nat \<Rightarrow> browser" where
  "onError b r =
     (let b1 = update_iframe r (\<lambda>f. f\<lparr>hasLoaded := True\<rparr>) b;
          b2 = cancelLoadTimeout b1 r;
          b3 = hideLoading b2
      in showError b3
           (js ''Failed to load this page. Please check your internet connection or try again.'')
           (src (iframes b3 ! r)))"

text \<open>\<open>startLoadTimeout(url)\<close>.\<close>

definition startLoadTimeout :: "browser \<Rightarrow> nat \<Rightarrow> jsstring \<Rightarrow> browser" where
  "startLoadTimeout b r u =
     (let b1 = (case loadTimeout (iframes b ! r) of None \<Rightarrow> b | Some tid \<Rightarrow> clearTimeout b tid);
          (b2, tid) = setTimeout b1 (CbTimeout r u) 10000
      in update_iframe r (\<lambda>f. f\<lparr>loadTimeout := Some tid\<rparr>) b2)"

text \<open>
  What the page finds when a delayed check looks into the iframe: reading the document
  throws, or gives no document or one without body, or gives a document with a body and
  the title shown.
\<close>

datatype doc_probe = DocThrows | DocAbsent | DocBody jsstring

definition blockedMessage :: "jsstring \<Rightarrow> jsstring" where
  "blockedMessage host = js ''This website ('' @ host @
     js '') blocks embedding in iframes for security reasons. Click '' @ [0x22] @
     js ''Open in New Window'' @ [0x22] @ js '' to view it.''"

text \<open>
  The second half of the 500 ms check, entered when the document was not usable:
  \<open>win\<close> says whether \<open>iframe.contentWindow.location\<close> could be read.
\<close>

definition settleWindow :: "(jsstring \<Rightarrow> jsstring option) \<Rightarrow> browser \<Rightarrow> nat \<Rightarrow> bool \<Rightarrow> browser" where
  "settleWindow parseURL b r win =
     (case parseURL (src (iframes b ! r)) of
        None \<Rightarrow> showError b
                  (js ''Failed to load this page. The website may block embedding in iframes.'')
                  (src (iframes b ! r))
      | Some host \<Rightarrow>
          (if win
           then updateTabBar (updateTabTitle (hideError b) (owner (iframes b ! r)) host)
           else fst (setTimeout b (CbRecheck r host) 2000)))"

text \<open>The closure run 500 ms after a load event.\<close>

definition settleCheck ::
  "(jsstring \<Rightarrow> jsstring option) \<Rightarrow> browser \<Rightarrow> nat \<Rightarrow> doc_probe \<Rightarrow> bool \<Rightarrow> browser" where
  "settleCheck parseURL b r doc win =
     (case doc of
        DocBody t \<Rightarrow>
          (let b1 = hideError b
           in case (if t \<noteq> [] then Some t else parseURL (src (iframes b ! r))) of
                Some ttl \<Rightarrow> updateTabBar (updateTabTitle b1 (owner (iframes b ! r)) ttl)
              | None \<Rightarrow> settleWindow parseURL b1 r win)
      | _ \<Rightarrow> settleWindow parseURL b r win)"

text \<open>The closure run 2000 ms after that.\<close>

definition finalCheck :: "browser \<Rightarrow> nat \<Rightarrow> jsstring \<Rightarrow> doc_probe \<Rightarrow> browser" where
  "finalCheck b r host doc =
     (if errorDisplay b = DFlex then b
      else (case doc of
              DocBody t \<Rightarrow> b
            | _ \<Rightarrow> showError b (blockedMessage host) (src (iframes b ! r))))"

text \<open>The closure of the 10 s timeout.\<close>

definition loadTimedOut :: "(jsstring \<Rightarrow> jsstring option) \<Rightarrow> browser \<Rightarrow> nat \<Rightarrow> jsstring \<Rightarrow> browser" where
  "loadTimedOut parseURL b r u =
     (if \<not> hasLoaded (iframes b ! r)
      then (case parseURL u of
              Some host \<Rightarrow> showError (hideLoading b)
                (js ''This website ('' @ host @ js '') is taking too long to load or blocks iframe embedding.'') u
            | None \<Rightarrow> showError (hideLoading b)
                (js ''This page is taking too long to load or blocks iframe embedding.'') u)
      else b)"

subsection \<open>Tabs\<close>

definition switchTab :: "browser \<Rightarrow> jsstring \<Rightarrow> browser" where
  "switchTab b tabId =
     (let b1 = b\<lparr>activeTabId := Some tabId,
                 iframes := map (\<lambda>f. if attached f then f\<lparr>display := DNone\<rparr> else f) (iframes b),
                 tabBar := map (\<lambda>e. e\<lparr>el_active := (el_id e = tabId)\<rparr>) (tabBar b)\<rparr>
      in case getActiveTab b1 of
           None \<Rightarrow> b1
         | Some t \<Rightarrow>
             (let b2 = b1\<lparr>addressBarValue := url t\<rparr>;
                  b3 = (case iframe t of
                          Some r \<Rightarrow> hideWelcomeScreen (update_iframe r (\<lambda>f. f\<lparr>display := DBlock\<rparr>) b2)
                        | None \<Rightarrow>
                            (if url t \<noteq> [] \<and> url t \<noteq> js ''about:blank''
                             then (let (b', r) = createTabIframe b2 (tab_id t)
                                   in hideWelcomeScreen
                                        (update_iframe r (\<lambda>f. f\<lparr>src := url t, display := DBlock\<rparr>) b'))
                             else showWelcomeScreen b2))
              in updateNavButtons b3))"

text \<open>
  \<open>navigateToUrl(url)\<close>. \<open>sanitizeUrl\<close> runs before anything is written, so when it
  throws the handler ends with the state as it was.
\<close>

definition navigateToUrl :: "(jsstring \<Rightarrow> jsstring option) \<Rightarrow> browser \<Rightarrow> jsstring \<Rightarrow> browser" where
  "navigateToUrl parseURL b u =
     (case getActiveTab b of
        None \<Rightarrow> b
      | Some t \<Rightarrow>
          (case sanitizeUrl parseURL u of
             Inl e \<Rightarrow> b
           | Inr sanitizedUrl \<Rightarrow>
               (let b1 = updateTabUrl b (tab_id t) sanitizedUrl;
                    b2 = addToHistory b1 (tab_id t) sanitizedUrl;
                    b3 = updateTabBar (updateTabTitle b2 (tab_id t)
                           (case parseURL sanitizedUrl of Some host \<Rightarrow> host
                            | None \<Rightarrow> js ''Navigating...''));
                    b4 = updateNavButtons (b3\<lparr>addressBarValue := sanitizedUrl\<rparr>);
                    (b5, r) = (case iframe t of Some r \<Rightarrow> (b4, r)
                               | None \<Rightarrow> createTabIframe b4 (tab_id t));
                    b6 = hideWelcomeScreen (hideError (showLoading b5));
                    b7 = update_iframe r (\<lambda>f. f\<lparr>display := DBlock, hasLoaded_prop := Some False\<rparr>) b6;
                    b8 = startLoadTimeout b7 r sanitizedUrl
                in update_iframe r (\<lambda>f. f\<lparr>src := sanitizedUrl\<rparr>) b8)))"

text \<open>The global function \<open>addTab(url)\<close>; the method of \<open>browserState\<close> is \<open>addTab\<close> above.\<close>

definition addTab_ui ::
  "(jsstring \<Rightarrow> jsstring option) \<Rightarrow> browser \<Rightarrow> jsstring \<Rightarrow> nat \<Rightarrow> nat \<Rightarrow> browser" where
  "addTab_ui parseURL b u now now' =
     (case (if u = [] then Inr [] else sanitizeUrl parseURL u) of
        Inl e \<Rightarrow> b
      | Inr sanitizedUrl \<Rightarrow>
          (case addTab b sanitizedUrl now now' of
             (b1, None) \<Rightarrow> b1
           | (b1, Some t) \<Rightarrow>
               (let b2 = b1\<lparr>tabBar := tabBar b1 @ [createTabElement t]\<rparr>;
                    b3 = switchTab (b2\<lparr>activeTabId := Some (tab_id t)\<rparr>) (tab_id t)
                in if sanitizedUrl \<noteq> [] \<and> sanitizedUrl \<noteq> js ''about:blank''
                   then navigateToUrl parseURL b3 sanitizedUrl
                   else b3)))"

definition closeTab :: "browser \<Rightarrow> jsstring \<Rightarrow> browser" where
  "closeTab b tabId =
     (if length (tabs b) = 1 then b
      else (let b1 = removeTab b tabId;
                b2 = b1\<lparr>tabBar := remove_element tabId (tabBar b1)\<rparr>
            in case activeTabId b2 of
                 Some a \<Rightarrow>
                   (if a \<noteq> [] then switchTab b2 a
                    else if length (tabs b2) > 0 then switchTab b2 (tab_id (tabs b2 ! 0))
                    else showWelcomeScreen b2)
               | None \<Rightarrow>
                   (if length (tabs b2) > 0 then switchTab b2 (tab_id (tabs b2 ! 0))
                    else showWelcomeScreen b2)))"

text \<open>
  The global functions \<open>goBack\<close>, \<open>goForward\<close> and \<open>reload\<close>. Where the tab's own history
  has no entry to go to, the iframe's native history is asked, which writes nothing here.
\<close>

definition showUrl :: "browser \<Rightarrow> tab \<Rightarrow> nat \<Rightarrow> jsresult \<Rightarrow> browser" where
  "showUrl b t r res =
     (case res of
        Str u \<Rightarrow>
          (if u = [] then b
           else (let b1 = update_iframe r (\<lambda>f. f\<lparr>src := u\<rparr>) (showLoading b);
                     b2 = updateTabUrl b1 (tab_id t) u
                 in updateNavButtons (b2\<lparr>addressBarValue := u\<rparr>)))
      | _ \<Rightarrow> b)"

definition goBack_ui :: "browser \<Rightarrow> browser" where
  "goBack_ui b =
     (case getActiveTab b of
        None \<Rightarrow> b
      | Some t \<Rightarrow>
          (case iframe t of
             None \<Rightarrow> b
           | Some r \<Rightarrow>
               (if canGoBack b (tab_id t)
                then (let (b1, res) = goBack b (tab_id t) in showUrl b1 t r res)
                else b)))"

definition goForward_ui :: "browser \<Rightarrow> browser" where
  "goForward_ui b =
     (case getActiveTab b of
        None \<Rightarrow> b
      | Some t \<Rightarrow>
          (case iframe t of
             None \<Rightarrow> b
           | Some r \<Rightarrow>
               (if canGoForward b (tab_id t)
                then (let (b1, res) = goForward b (tab_id t) in showUrl b1 t r res)
                else b)))"

definition reload :: "browser \<Rightarrow> browser" where
  "reload b =
     (case getActiveTab b of
        None \<Rightarrow> b
      | Some t \<Rightarrow> (case iframe t of None \<Rightarrow> b | Some r \<Rightarrow> showLoading b))"

definition retry :: "(jsstring \<Rightarrow> jsstring option) \<Rightarrow> browser \<Rightarrow> browser" where
  "retry parseURL b =
     (let u = (case errorUrl b of Some v \<Rightarrow> (if v = [] then addressBarValue b else v)
               | None \<Rightarrow> addressBarValue b)
      in if u = [] then b else navigateToUrl parseURL b u)"

definition initBrowser :: "(jsstring \<Rightarrow> jsstring option) \<Rightarrow> browser \<Rightarrow> nat \<Rightarrow> nat \<Rightarrow> browser" where
  "initBrowser parseURL b now now' = addTab_ui parseURL b [] now now'"

section \<open>Events\<close>

text \<open>
  The events the page reacts to. A click on a tab element or on its close button names the
  element by its place in the tab bar. A timer that fires carries what the page finds in
  the iframe at that moment: the document probe and whether \<open>contentWindow.location\<close>
  is readable. Timers fire in any order, each at most once. The reading-mode controls and
  the button that opens the URL in a new window write none of the state kept here.
\<close>

datatype event =
  DOMContentLoaded nat nat
| ClickAddTab nat nat
| ClickTab nat
| ClickCloseTab nat
| TypeAddress jsstring
| PressEnter
| QuickLink jsstring
| ClickBack
| ClickForward
| ClickReload
| ClickRetry
| IframeLoad nat
| IframeError nat
| TimerFires nat doc_probe bool

definition runCallback ::
  "(jsstring \<Rightarrow> jsstring option) \<Rightarrow> browser \<Rightarrow> callback \<Rightarrow> doc_probe \<Rightarrow> bool \<Rightarrow> browser" where
  "runCallback parseURL b cb doc win =
     (case cb of
        CbSettle r \<Rightarrow> settleCheck parseURL b r doc win
      | CbRecheck r host \<Rightarrow> finalCheck b r host doc
      | CbTimeout r u \<Rightarrow> loadTimedOut parseURL b r u)"

definition step :: "(jsstring \<Rightarrow> jsstring option) \<Rightarrow> browser \<Rightarrow> event \<Rightarrow> browser" where
  "step parseURL b e =
     (case e of
        DOMContentLoaded now now' \<Rightarrow> initBrowser parseURL b now now'
      | ClickAddTab now now' \<Rightarrow> addTab_ui parseURL b [] now now'
      | ClickTab k \<Rightarrow> (if k < length (tabBar b) then switchTab b (el_id (tabBar b ! k)) else b)
      | ClickCloseTab k \<Rightarrow> (if k < length (tabBar b) then closeTab b (el_id (tabBar b ! k)) else b)
      | TypeAddress text \<Rightarrow> b\<lparr>addressBarValue := text\<rparr>
      | PressEnter \<Rightarrow> navigateToUrl parseURL b (addressBarValue b)
      | QuickLink u \<Rightarrow> navigateToUrl parseURL b u
      | ClickBack \<Rightarrow> goBack_ui b
      | ClickForward \<Rightarrow> goForward_ui b
      | ClickReload \<Rightarrow> reload b
      | ClickRetry \<Rightarrow> retry parseURL b
      | IframeLoad r \<Rightarrow> (if r < length (iframes b) then onLoad b r else b)
      | IframeError r \<Rightarrow> (if r < length (iframes b) then onError b r else b)
      | TimerFires tid doc win \<Rightarrow>
          (case List.find (\<lambda>x. fst x = tid) (timers b) of
             None \<Rightarrow> b
           | Some (i, delay, cb) \<Rightarrow>
               runCallback parseURL (b\<lparr>timers := filter (\<lambda>x. fst x \<noteq> tid) (timers b)\<rparr>) cb doc win))"

definition run :: "(jsstring \<Rightarrow> jsstring option) \<Rightarrow> browser \<Rightarrow> event list \<Rightarrow> browser" where
  "run parseURL b es = foldl (step parseURL) b es"

inductive reachable :: "(jsstring \<Rightarrow> jsstring option) \<Rightarrow> browser \<Rightarrow> bool"
  for parseURL :: "jsstring \<Rightarrow> jsstring option" where
  reach_start: "reachable parseURL newBrowserState"
| reach_step: "reachable parseURL b \<Longrightarrow> reachable parseURL (step parseURL b e)"

text \<open>
  A stand-in for \<open>new URL\<close> in the examples: on \<open>https://\<close> followed by a host name
  and an optional path it gives the host name, as the platform's parser does; it is not
  used on any other string.
\<close>

definition hostOf :: "jsstring \<Rightarrow> jsstring option" where
  "hostOf s = (if startsWith s (js ''https://'') \<and> length s > 8
               then Some (takeWhile (\<lambda>c. c \<noteq> 0x2F) (drop 8 s)) else None)"

section \<open>The first \<open>BrowserState\<close> of app.js (one global history)\<close>

record tab_v1 =
  id_v1 :: jsstring
  title_v1 :: jsstring
  url_v1 :: jsstring
  timestamp_v1 :: nat

text \<open>
  The state of the first variant: the fields of its \<open>browserState\<close>, the array
  \<open>openedWindows\<close> (for each window whether it is closed) and the parts of the page
  that its \<open>closeTab\<close> and \<open>switchTab\<close> write.
\<close>

record browser_v1 =
  tabs_v1 :: "tab_v1 list"
  activeTabId_v1 :: "jsstring option"
  history_v1 :: "jsstring list"
  historyIndex_v1 :: int
  currentUrl_v1 :: jsstring
  openedWindows :: "bool list"
  tabBar_v1 :: "tab_element list"
  addressBarValue_v1 :: jsstring
  backDisabled_v1 :: bool
  forwardDisabled_v1 :: bool

definition newBrowserState_v1 :: browser_v1 where
  "newBrowserState_v1 = \<lparr> tabs_v1 = [], activeTabId_v1 = None, history_v1 = [],
     historyIndex_v1 = - 1, currentUrl_v1 = [], openedWindows = [], tabBar_v1 = [],
     addressBarValue_v1 = [], backDisabled_v1 = False, forwardDisabled_v1 = False \<rparr>"

definition addTab_v1 :: "browser_v1 \<Rightarrow> jsstring \<Rightarrow> nat \<Rightarrow> nat \<Rightarrow> browser_v1 \<times> tab_v1" where
  "addTab_v1 b u now now' =
     (let t = \<lparr> id_v1 = js ''tab-'' @ decimal now, title_v1 = js ''New Tab'',
                url_v1 = (if u = [] then js ''about:blank'' else u), timestamp_v1 = now' \<rparr>
      in (b\<lparr>tabs_v1 := tabs_v1 b @ [t]\<rparr>, t))"

definition removeTab_v1 :: "browser_v1 \<Rightarrow> jsstring \<Rightarrow> browser_v1" where
  "removeTab_v1 b tabId =
     (case findIndex (\<lambda>t. id_v1 t = tabId) (tabs_v1 b) of
        None \<Rightarrow> b
      | Some i \<Rightarrow>
          (let ts = take i (tabs_v1 b) @ drop (Suc i) (tabs_v1 b);
               b' = b\<lparr>tabs_v1 := ts\<rparr>
           in if activeTabId_v1 b = Some tabId
              then b'\<lparr>activeTabId_v1 := (if length ts > 0 then Some (id_v1 (ts ! 0)) else None)\<rparr>
              else b'))"

definition getActiveTab_v1 :: "browser_v1 \<Rightarrow> tab_v1 option" where
  "getActiveTab_v1 b =
     (case activeTabId_v1 b of None \<Rightarrow> None
      | Some i \<Rightarrow> List.find (\<lambda>t. id_v1 t = i) (tabs_v1 b))"

definition canGoBack_v1 :: "browser_v1 \<Rightarrow> bool" where
  "canGoBack_v1 b = (historyIndex_v1 b > 0)"

definition canGoForward_v1 :: "browser_v1 \<Rightarrow> bool" where
  "canGoForward_v1 b = (historyIndex_v1 b < int (length (history_v1 b)) - 1)"

definition updateNavButtons_v1 :: "browser_v1 \<Rightarrow> browser_v1" where
  "updateNavButtons_v1 b =
     b\<lparr>backDisabled_v1 := \<not> canGoBack_v1 b, forwardDisabled_v1 := \<not> canGoForward_v1 b\<rparr>"

definition switchTab_v1 :: "browser_v1 \<Rightarrow> jsstring \<Rightarrow> browser_v1" where
  "switchTab_v1 b tabId =
     (let b1 = b\<lparr>activeTabId_v1 := Some tabId,
                 tabBar_v1 := map (\<lambda>e. e\<lparr>el_active := (el_id e = tabId)\<rparr>) (tabBar_v1 b)\<rparr>
      in case getActiveTab_v1 b1 of
           None \<Rightarrow> b1
         | Some t \<Rightarrow> updateNavButtons_v1 (b1\<lparr>addressBarValue_v1 := url_v1 t\<rparr>))"

text \<open>
  \<open>closeTab\<close> of the first variant: with one tab left it closes the opened windows,
  empties \<open>openedWindows\<close> and returns.
\<close>

definition closeTab_v1 :: "browser_v1 \<Rightarrow> jsstring \<Rightarrow> browser_v1" where
  "closeTab_v1 b tabId =
     (if length (tabs_v1 b) = 1 then b\<lparr>openedWindows := []\<rparr>
      else (let b1 = removeTab_v1 b tabId;
                b2 = b1\<lparr>tabBar_v1 := remove_element tabId (tabBar_v1 b1)\<rparr>
            in case activeTabId_v1 b2 of
                 Some a \<Rightarrow> (if a \<noteq> [] then switchTab_v1 b2 a else b2)
               | None \<Rightarrow> b2))"

section \<open>Invariants\<close>

text \<open>The position of a tab lies within its history, or is \<open>-1\<close>.\<close>

definition history_inv :: "tab \<Rightarrow> bool" where
  "history_inv t = (- 1 \<le> historyIndex t \<and> historyIndex t < int (length (history t)))"

text \<open>The active identifier, when set, is the identifier of a tab of the registry.\<close>

definition active_ok :: "browser \<Rightarrow> bool" where
  "active_ok b = (case activeTabId b of None \<Rightarrow> True | Some a \<Rightarrow> a \<in> set (map tab_id (tabs b)))"

text \<open>Every tab's position lies within its history, and the tabs are at most \<open>maxTabs\<close>, which is 3.\<close>

definition hist_ok :: "browser \<Rightarrow> bool" where
  "hist_ok b = (\<forall>t\<in>set (tabs b). history_inv t)"

definition cap_ok :: "browser \<Rightarrow> bool" where
  "cap_ok b = (length (tabs b) \<le> maxTabs b \<and> maxTabs b = 3)"

definition tabs_inv :: "browser \<Rightarrow> bool" where
  "tabs_inv b = (hist_ok b \<and> cap_ok b)"

text \<open>The tab elements of the tab bar carry the identifiers of the tabs, in order.\<close>

definition bar_ok :: "browser \<Rightarrow> bool" where
  "bar_ok b = (map el_id (tabBar b) = map tab_id (tabs b))"

definition reg_inv :: "browser \<Rightarrow> bool" where
  "reg_inv b = (active_ok b \<and> bar_ok b)"

text \<open>
  Timers and iframes. \<open>tinv\<close> speaks of the pending timers, the next timer identifier, the
  \<open>loadTimeout\<close> variable of every iframe and the \<open>iframe\<close> field of every tab: pending
  identifiers are below the next one and distinct; every closure refers to an iframe of the
  store; a pending load timeout of an iframe is the one its \<open>loadTimeout\<close> variable
  holds; an identifier held by \<open>loadTimeout\<close> is below the next one and, when pending,
  belongs to a load timeout of that iframe; every tab's iframe is in the store.
\<close>

fun cb_ref :: "callback \<Rightarrow> nat" where
  "cb_ref (CbSettle r) = r"
| "cb_ref (CbRecheck r h) = r"
| "cb_ref (CbTimeout r u) = r"

fun isTimeoutOf :: "nat \<Rightarrow> callback \<Rightarrow> bool" where
  "isTimeoutOf r (CbTimeout r' u) = (r' = r)"
| "isTimeoutOf r (CbSettle r') = False"
| "isTimeoutOf r (CbRecheck r' h) = False"

definition tinv ::
  "(nat \<times> nat \<times> callback) list \<Rightarrow> nat \<Rightarrow> nat option list \<Rightarrow> nat option list \<Rightarrow> bool" where
  "tinv ts n ls rs =
     ((\<forall>x\<in>set ts. fst x < n \<and> cb_ref (snd (snd x)) < length ls \<and>
         (\<forall>r. isTimeoutOf r (snd (snd x)) \<longrightarrow> ls ! r = Some (fst x))) \<and>
      distinct (map fst ts) \<and>
      (\<forall>r<length ls. \<forall>i. ls ! r = Some i \<longrightarrow>
         i < n \<and> (\<forall>x\<in>set ts. fst x = i \<longrightarrow> isTimeoutOf r (snd (snd x)))) \<and>
      (\<forall>r. Some r \<in> set rs \<longrightarrow> r < length ls))"

definition timer_inv :: "browser \<Rightarrow> bool" where
  "timer_inv b =
     tinv (timers b) (nextTimer b) (map loadTimeout (iframes b)) (map iframe (tabs b))"

section \<open>An example run\<close>

text \<open>
  The states of one run of the page, with \<open>hostOf\<close> for the URL parser: the page is opened
  at clock reading 7, \<open>https://a.example\<close> is navigated to and its load event arrives;
  within the 500 ms of the pending check \<open>https://b.example\<close> is navigated to and its
  error event arrives; then the pending check of the first navigation fires. The last state
  is the fourth after a navigation to \<open>https://c.example\<close>.
\<close>

definition example_opened :: browser where
  "example_opened =
     \<lparr> tabs = [\<lparr> tab_id = js ''tab-7'', title = js ''New Tab'',
      url = js ''about:blank'', timestamp = 7, iframe = None, history = [],
      historyIndex = - 1 \<rparr>], activeTabId = Some (js ''tab-7''), maxTabs = 3, iframes = [],
      timers = [], nextTimer = 1, loadingActive = False, errorDisplay = DNone, errorText = [],
      errorUrl = None, welcomeDisplay = DFlex, iframeContainerDisplay = DNone,
      addressBarValue = js ''about:blank'', backDisabled = True, forwardDisabled = True,
      tabBar = [\<lparr> el_id = js ''tab-7'', el_title = js ''New Tab'',
      el_active = True \<rparr>] \<rparr>"

definition example_loading_a :: browser where
  "example_loading_a =
     \<lparr> tabs = [\<lparr> tab_id = js ''tab-7'', title = js ''a.example'',
      url = js ''https://a.example'', timestamp = 7, iframe = Some 0,
      history = [js ''https://a.example''], historyIndex = 0 \<rparr>],
      activeTabId = Some (js ''tab-7''), maxTabs = 3,
      iframes = [\<lparr> src = js ''https://a.example'', display = DBlock, attached = True,
      loadTimeout = Some 1, hasLoaded = False, hasLoaded_prop = Some False,
      owner = js ''tab-7'' \<rparr>], timers = [(1, 10000,
      CbTimeout 0 (js ''https://a.example''))], nextTimer = 2, loadingActive = True,
      errorDisplay = DNone, errorText = [], errorUrl = None, welcomeDisplay = DNone,
      iframeContainerDisplay = DBlock, addressBarValue = js ''https://a.example'',
      backDisabled = True, forwardDisabled = True, tabBar = [\<lparr> el_id = js ''tab-7'',
      el_title = js ''a.example'', el_active = True \<rparr>] \<rparr>"

definition example_loaded_a :: browser where
  "example_loaded_a =
     \<lparr> tabs = [\<lparr> tab_id = js ''tab-7'', title = js ''a.example'',
      url = js ''https://a.example'', timestamp = 7, iframe = Some 0,
      history = [js ''https://a.example''], historyIndex = 0 \<rparr>],
      activeTabId = Some (js ''tab-7''), maxTabs = 3,
      iframes = [\<lparr> src = js ''https://a.example'', display = DBlock, attached = True,
      loadTimeout = None, hasLoaded = True, hasLoaded_prop = Some False,
      owner = js ''tab-7'' \<rparr>], timers = [(2, 500, CbSettle 0)], nextTimer = 3,
      loadingActive = False, errorDisplay = DNone, errorText = [], errorUrl = None,
      welcomeDisplay = DNone, iframeContainerDisplay = DBlock,
      addressBarValue = js ''https://a.example'', backDisabled = True, forwardDisabled = True,
      tabBar = [\<lparr> el_id = js ''tab-7'', el_title = js ''a.example'',
      el_active = True \<rparr>] \<rparr>"

definition example_failed_b :: browser where
  "example_failed_b =
     \<lparr> tabs = [\<lparr> tab_id = js ''tab-7'', title = js ''b.example'',
      url = js ''https://b.example'', timestamp = 7, iframe = Some 0,
      history = [js ''https://a.example'', js ''https://b.example''],
      historyIndex = 1 \<rparr>], activeTabId = Some (js ''tab-7''), maxTabs = 3,
      iframes = [\<lparr> src = js ''https://b.example'', display = DBlock, attached = True,
      loadTimeout = None, hasLoaded = True, hasLoaded_prop = Some False,
      owner = js ''tab-7'' \<rparr>], timers = [(2, 500, CbSettle 0)], nextTimer = 4,
      loadingActive = False, errorDisplay = DFlex,
      errorText = js ''Failed to load this page. Please check your internet connection or try again.'',
      errorUrl = Some (js ''https://b.example''), welcomeDisplay = DNone,
      iframeContainerDisplay = DNone, addressBarValue = js ''https://b.example'',
      backDisabled = False, forwardDisabled = True, tabBar = [\<lparr> el_id = js ''tab-7'',
      el_title = js ''b.example'', el_active = True \<rparr>] \<rparr>"

definition example_after_stale :: browser where
  "example_after_stale =
     \<lparr> tabs = [\<lparr> tab_id = js ''tab-7'', title = js ''b.example'',
      url = js ''https://b.example'', timestamp = 7, iframe = Some 0,
      history = [js ''https://a.example'', js ''https://b.example''],
      historyIndex = 1 \<rparr>], activeTabId = Some (js ''tab-7''), maxTabs = 3,
      iframes = [\<lparr> src = js ''https://b.example'', display = DBlock, attached = True,
      loadTimeout = None, hasLoaded = True, hasLoaded_prop = Some False,
      owner = js ''tab-7'' \<rparr>], timers = [], nextTimer = 4, loadingActive = False,
      errorDisplay = DNone,
      errorText = js ''Failed to load this page. Please check your internet connection or try again.'',
      errorUrl = Some (js ''https://b.example''), welcomeDisplay = DNone,
      iframeContainerDisplay = DNone, addressBarValue = js ''https://b.example'',
      backDisabled = False, forwardDisabled = True, tabBar = [\<lparr> el_id = js ''tab-7'',
      el_title = js ''b.example'', el_active = True \<rparr>] \<rparr>"

definition example_loading_b :: browser where
  "example_loading_b =
     \<lparr> tabs = [\<lparr> tab_id = js ''tab-7'', title = js ''b.example'',
      url = js ''https://b.example'', timestamp = 7, iframe = Some 0,
      history = [js ''https://a.example'', js ''https://b.example''],
      historyIndex = 1 \<rparr>], activeTabId = Some (js ''tab-7''), maxTabs = 3,
      iframes = [\<lparr> src = js ''https://b.example'', display = DBlock, attached = True,
      loadTimeout = Some 3, hasLoaded = True, hasLoaded_prop = Some False,
      owner = js ''tab-7'' \<rparr>], timers = [(2, 500, CbSettle 0), (3, 10000,
      CbTimeout 0 (js ''https://b.example''))], nextTimer = 4, loadingActive = True,
      errorDisplay = DNone, errorText = [], errorUrl = None, welcomeDisplay = DNone,
      iframeContainerDisplay = DBlock, addressBarValue = js ''https://b.example'',
      backDisabled = False, forwardDisabled = True, tabBar = [\<lparr> el_id = js ''tab-7'',
      el_title = js ''b.example'', el_active = True \<rparr>] \<rparr>"

definition example_loading_c :: browser where
  "example_loading_c =
     \<lparr> tabs = [\<lparr> tab_id = js ''tab-7'', title = js ''c.example'',
      url = js ''https://c.example'', timestamp = 7, iframe = Some 0,
      history = [js ''https://a.example'', js ''https://b.example'',
      (js ''https://c.example'')], historyIndex = 2 \<rparr>], activeTabId = Some (js ''tab-7''),
      maxTabs = 3, iframes = [\<lparr> src = js ''https://c.example'', display = DBlock,
      attached = True, loadTimeout = Some 4, hasLoaded = True, hasLoaded_prop = Some False,
      owner = js ''tab-7'' \<rparr>], timers = [(2, 500, CbSettle 0), (4, 10000,
      CbTimeout 0 (js ''https://c.example''))], nextTimer = 5, loadingActive = True,
      errorDisplay = DNone, errorText = [], errorUrl = None, welcomeDisplay = DNone,
      iframeContainerDisplay = DBlock, addressBarValue = js ''https://c.example'',
      backDisabled = False, forwardDisabled = True, tabBar = [\<lparr> el_id = js ''tab-7'',
      el_title = js ''c.example'', el_active = True \<rparr>] \<rparr>"

section \<open>Properties of the history\<close>

lemmas sanitize_defs = sanitizeUrl_def isValidUrl_def trim_def isSpace_def js_def unreserved_def
  utf8_def hexDigit_def percent_def isHigh_def isLow_def

lemmas registry_defs = addTab_def newBrowserState_def new_tab_def addToHistory_def
  push_history_def slice0_def goBack_def goForward_def canGoBack_def canGoForward_def
  find_tab_def index_def decimal.simps js_def

lemma find_tab_update_tab_same:
  "find_tab ts i = Some t \<Longrightarrow> tab_id (f t) = i \<Longrightarrow> find_tab (update_tab i f ts) i = Some (f t)"
  by (induction ts) (auto simp: find_tab_def)

lemma update_tab_absent: "find_tab ts i = None \<Longrightarrow> update_tab i f ts = ts"
  by (induction ts) (auto simp: find_tab_def split: if_splits)

lemma find_tab_Some_id: "find_tab ts i = Some t \<Longrightarrow> tab_id t = i"
  by (induction ts) (auto simp: find_tab_def split: if_splits)

lemma find_tab_None_iff: "find_tab ts i = None \<longleftrightarrow> i \<notin> set (map tab_id ts)"
  by (induction ts) (auto simp: find_tab_def)

text \<open>
  Claim C2. For a tab that is present and whose position is at least \<open>-1\<close>,
  \<open>addToHistory\<close> keeps the first \<open>historyIndex + 1\<close> entries, appends the URL and sets
  the position to the last index. From the empty history of a new tab, pushing \<open>x\<close>,
  \<open>y\<close>, \<open>z\<close>, going back twice and pushing \<open>w\<close> gives the entries \<open>[x, w]\<close>, the
  position \<open>1\<close> and \<open>canGoForward\<close> false.
\<close>

theorem history_push:
  "(find_tab (tabs b) i = Some t \<and> - 1 \<le> historyIndex t \<longrightarrow>
      (\<exists>t'. find_tab (tabs (addToHistory b i u)) i = Some t' \<and>
            history t' = take (nat (historyIndex t + 1)) (history t) @ [u] \<and>
            historyIndex t' = int (length (history t')) - 1)) \<and>
   (let k = js ''tab-7'';
        b0 = fst (addTab newBrowserState [] 7 7);
        b3 = addToHistory (addToHistory (addToHistory b0 k x) k y) k z;
        b5 = fst (goBack (fst (goBack b3 k)) k);
        b6 = addToHistory b5 k w
    in map history (tabs b0) = [[]] \<and> map history (tabs b6) = [[x, w]] \<and>
       map historyIndex (tabs b6) = [1] \<and> \<not> canGoForward b6 k)"
proof (intro conjI impI)
  assume a: "find_tab (tabs b) i = Some t \<and> - 1 \<le> historyIndex t"
  then have "tab_id t = i"
    using find_tab_Some_id by blast
  then have "find_tab (tabs (addToHistory b i u)) i = Some (push_history u t)"
    using a by (simp add: addToHistory_def find_tab_update_tab_same push_history_def Let_def)
  moreover have "history (push_history u t) = take (nat (historyIndex t + 1)) (history t) @ [u]"
    using a by (simp add: push_history_def Let_def slice0_def)
  moreover have "historyIndex (push_history u t) = int (length (history (push_history u t))) - 1"
    by (simp add: push_history_def Let_def)
  ultimately show "\<exists>t'. find_tab (tabs (addToHistory b i u)) i = Some t' \<and>
            history t' = take (nat (historyIndex t + 1)) (history t) @ [u] \<and>
            historyIndex t' = int (length (history t')) - 1"
    by blast
next
  show "let k = js ''tab-7'';
        b0 = fst (addTab newBrowserState [] 7 7);
        b3 = addToHistory (addToHistory (addToHistory b0 k x) k y) k z;
        b5 = fst (goBack (fst (goBack b3 k)) k);
        b6 = addToHistory b5 k w
    in map history (tabs b0) = [[]] \<and> map history (tabs b6) = [[x, w]] \<and>
       map historyIndex (tabs b6) = [1] \<and> \<not> canGoForward b6 k"
    by (simp add: Let_def addTab_def newBrowserState_def new_tab_def addToHistory_def
      push_history_def slice0_def goBack_def canGoBack_def canGoForward_def find_tab_def
      index_def decimal.simps js_def)
qed

theorem history_push_witness:
  "let b = addToHistory (fst (addTab newBrowserState [] 7 7)) (js ''tab-7'') (js ''a'');
       t = new_tab [] 7 7 \<lparr>history := [js ''a''], historyIndex := 0\<rparr>
   in find_tab (tabs b) (js ''tab-7'') = Some t \<and> - 1 \<le> historyIndex t \<and>
      (\<exists>t'. find_tab (tabs (addToHistory b (js ''tab-7'') (js ''b''))) (js ''tab-7'') = Some t' \<and>
            history t' = [js ''a'', js ''b''] \<and> historyIndex t' = 1)"
proof -
  define b where "b = addToHistory (fst (addTab newBrowserState [] 7 7)) (js ''tab-7'') (js ''a'')"
  define t where "t = new_tab [] 7 7 \<lparr>history := [js ''a''], historyIndex := 0\<rparr>"
  have h: "find_tab (tabs b) (js ''tab-7'') = Some t \<and> - 1 \<le> historyIndex t"
    by (simp add: b_def t_def addTab_def newBrowserState_def new_tab_def addToHistory_def
      push_history_def slice0_def find_tab_def decimal.simps js_def)
  have "history t = [js ''a'']" "historyIndex t = 0"
    by (simp_all add: t_def)
  from history_push [of b "js ''tab-7''" t "js ''b''", THEN conjunct1] h
  have "\<exists>t'. find_tab (tabs (addToHistory b (js ''tab-7'') (js ''b''))) (js ''tab-7'') = Some t' \<and>
            history t' = take (nat (historyIndex t + 1)) (history t) @ [js ''b''] \<and>
            historyIndex t' = int (length (history t')) - 1"
    by blast
  then have "\<exists>t'. find_tab (tabs (addToHistory b (js ''tab-7'') (js ''b''))) (js ''tab-7'') = Some t' \<and>
            history t' = [js ''a'', js ''b''] \<and> historyIndex t' = 1"
    by (auto simp: t_def)
  with h show ?thesis
    unfolding b_def [symmetric] t_def [symmetric] Let_def by simp
qed

text \<open>
  Claim C7. For a present tab whose position lies within its history, \<open>goBack\<close> with
  \<open>canGoBack\<close> true decrements the position and returns the URL at the new position;
  with \<open>canGoBack\<close> false it returns \<open>null\<close> and leaves the state as it was.
  \<open>goForward\<close> does the same forwards, with \<open>canGoForward\<close>. Every tab of a reachable
  state has its position within its history (\<open>reachable_history_inv\<close>).
\<close>

theorem goBack_goForward:
  assumes "find_tab (tabs b) i = Some t" and "history_inv t"
  shows "canGoBack b i = (0 < historyIndex t) \<and>
     canGoForward b i = (historyIndex t < int (length (history t)) - 1) \<and>
     (canGoBack b i \<longrightarrow>
        find_tab (tabs (fst (goBack b i))) i = Some (t\<lparr>historyIndex := historyIndex t - 1\<rparr>) \<and>
        snd (goBack b i) = Str (history t ! nat (historyIndex t - 1)) \<and>
        history_inv (t\<lparr>historyIndex := historyIndex t - 1\<rparr>)) \<and>
     (\<not> canGoBack b i \<longrightarrow> goBack b i = (b, Null)) \<and>
     (canGoForward b i \<longrightarrow>
        find_tab (tabs (fst (goForward b i))) i = Some (t\<lparr>historyIndex := historyIndex t + 1\<rparr>) \<and>
        snd (goForward b i) = Str (history t ! nat (historyIndex t + 1)) \<and>
        history_inv (t\<lparr>historyIndex := historyIndex t + 1\<rparr>)) \<and>
     (\<not> canGoForward b i \<longrightarrow> goForward b i = (b, Null))"
proof -
  have i: "tab_id t = i"
    using assms(1) by (rule find_tab_Some_id)
  have cb: "canGoBack b i = (0 < historyIndex t)"
    using assms(1) by (simp add: canGoBack_def)
  have cf: "canGoForward b i = (historyIndex t < int (length (history t)) - 1)"
    using assms(1) by (simp add: canGoForward_def)
  have bk: "find_tab (tabs (fst (goBack b i))) i = Some (t\<lparr>historyIndex := historyIndex t - 1\<rparr>) \<and>
        snd (goBack b i) = Str (history t ! nat (historyIndex t - 1)) \<and>
        history_inv (t\<lparr>historyIndex := historyIndex t - 1\<rparr>)" if "canGoBack b i"
    using that assms i cb
    by (simp add: goBack_def find_tab_update_tab_same index_def history_inv_def)
  have fwd: "find_tab (tabs (fst (goForward b i))) i = Some (t\<lparr>historyIndex := historyIndex t + 1\<rparr>) \<and>
        snd (goForward b i) = Str (history t ! nat (historyIndex t + 1)) \<and>
        history_inv (t\<lparr>historyIndex := historyIndex t + 1\<rparr>)" if "canGoForward b i"
    using that assms i cf
    by (simp add: goForward_def find_tab_update_tab_same index_def history_inv_def)
  have nb: "goBack b i = (b, Null)" if "\<not> canGoBack b i"
    using that assms(1) by (simp add: goBack_def)
  have nf: "goForward b i = (b, Null)" if "\<not> canGoForward b i"
    using that assms(1) by (simp add: goForward_def)
  from cb cf bk fwd nb nf show ?thesis by blast
qed

theorem goBack_goForward_witness:
  "let k = js ''tab-7'';
       b0 = fst (addTab newBrowserState [] 7 7);
       b3 = addToHistory (addToHistory (addToHistory b0 k (js ''a'')) k (js ''b'')) k (js ''c'');
       b4 = fst (goBack b3 k)
   in (\<exists>t. find_tab (tabs b4) k = Some t \<and> history_inv t \<and> canGoBack b4 k \<and> canGoForward b4 k \<and>
          snd (goBack b4 k) = Str (js ''a'') \<and> snd (goForward b4 k) = Str (js ''c'')) \<and>
      (\<exists>t. find_tab (tabs b0) k = Some t \<and> history_inv t \<and> \<not> canGoBack b0 k \<and> \<not> canGoForward b0 k \<and>
          goBack b0 k = (b0, Null) \<and> goForward b0 k = (b0, Null))"
proof -
  define k where "k = js ''tab-7''"
  define b0 where "b0 = fst (addTab newBrowserState [] 7 7)"
  define b4 where "b4 = fst (goBack (addToHistory (addToHistory (addToHistory b0 k (js ''a'')) k (js ''b'')) k (js ''c'')) k)"
  define t4 where "t4 = new_tab [] 7 7 \<lparr>history := [js ''a'', js ''b'', js ''c''], historyIndex := 1\<rparr>"
  define t0 where "t0 = new_tab [] 7 7"
  have f4: "find_tab (tabs b4) k = Some t4"
    by (simp add: b4_def b0_def k_def t4_def registry_defs)
  have i4: "history_inv t4"
    by (simp add: t4_def history_inv_def)
  have f0: "find_tab (tabs b0) k = Some t0"
    by (simp add: b0_def k_def t0_def registry_defs)
  have i0: "history_inv t0"
    by (simp add: t0_def history_inv_def new_tab_def)
  have "canGoBack b4 k \<and> canGoForward b4 k \<and>
          snd (goBack b4 k) = Str (js ''a'') \<and> snd (goForward b4 k) = Str (js ''c'')"
    using goBack_goForward [OF f4 i4] by (simp add: t4_def)
  moreover have "\<not> canGoBack b0 k \<and> \<not> canGoForward b0 k \<and>
          goBack b0 k = (b0, Null) \<and> goForward b0 k = (b0, Null)"
    using goBack_goForward [OF f0 i0] by (simp add: t0_def new_tab_def)
  ultimately show ?thesis
    using f4 i4 f0 i0 unfolding Let_def k_def [symmetric] b0_def [symmetric] b4_def [symmetric]
    by blast
qed

text \<open>
  Claim C10. For an identifier that no tab carries, \<open>canGoBack\<close> and \<open>canGoForward\<close>
  are false, \<open>goBack\<close> and \<open>goForward\<close> return \<open>null\<close>, and the state is unchanged.
\<close>

theorem unknown_tab_history:
  assumes "i \<notin> set (map tab_id (tabs b))"
  shows "\<not> canGoBack b i \<and> \<not> canGoForward b i \<and> goBack b i = (b, Null) \<and> goForward b i = (b, Null)"
proof -
  have "find_tab (tabs b) i = None"
    using assms by (simp add: find_tab_None_iff)
  then show ?thesis
    by (simp add: canGoBack_def canGoForward_def goBack_def goForward_def)
qed

theorem unknown_tab_history_witness:
  "let b = fst (addTab newBrowserState [] 7 7); i = js ''tab-8''
   in i \<notin> set (map tab_id (tabs b)) \<and> \<not> canGoBack b i \<and> \<not> canGoForward b i \<and>
      goBack b i = (b, Null) \<and> goForward b i = (b, Null)"
proof -
  have h: "js ''tab-8'' \<notin> set (map tab_id (tabs (fst (addTab newBrowserState [] 7 7))))"
    by (simp add: registry_defs)
  show ?thesis
    using h unknown_tab_history [OF h] by (simp add: Let_def)
qed

section \<open>Properties of the registry\<close>

lemma findIndex_None_iff: "findIndex P xs = None \<longleftrightarrow> (\<forall>x\<in>set xs. \<not> P x)"
  by (induction xs) (auto split: option.splits)

lemma findIndex_Some:
  "findIndex P xs = Some k \<Longrightarrow> k < length xs \<and> P (xs ! k) \<and> (\<forall>x\<in>set (take k xs). \<not> P x)"
proof (induction xs arbitrary: k)
  case Nil
  then show ?case by simp
next
  case (Cons x xs)
  show ?case
  proof (cases "P x")
    case True
    with Cons.prems show ?thesis by simp
  next
    case False
    with Cons.prems obtain j where j: "findIndex P xs = Some j" "k = Suc j"
      by (auto split: option.splits)
    from Cons.IH [OF j(1)] False j(2) show ?thesis by simp
  qed
qed

lemma set_without_nth:
  assumes "k < length xs"
  shows "set xs = insert (xs ! k) (set (take k xs @ drop (Suc k) xs))"
proof -
  have "set xs = set (take k xs @ xs ! k # drop (Suc k) xs)"
    by (rule arg_cong [where f = set, OF id_take_nth_drop [OF assms]])
  also have "\<dots> = insert (xs ! k) (set (take k xs @ drop (Suc k) xs))"
    by simp
  finally show ?thesis .
qed

lemma map_split_nth:
  assumes "k < length xs"
  shows "map f xs = map f (take k xs) @ f (xs ! k) # map f (drop (Suc k) xs)"
proof -
  have "map f xs = map f (take k xs @ xs ! k # drop (Suc k) xs)"
    by (rule arg_cong [where f = "map f", OF id_take_nth_drop [OF assms]])
  then show ?thesis by simp
qed

lemma removeTab_absent: "i \<notin> set (map tab_id (tabs b)) \<Longrightarrow> removeTab b i = b"
proof -
  assume "i \<notin> set (map tab_id (tabs b))"
  then have "findIndex (\<lambda>t. tab_id t = i) (tabs b) = None"
    by (auto simp: findIndex_None_iff)
  then show ?thesis by (simp add: removeTab_def)
qed

lemma removeTab_present:
  assumes "i \<in> set (map tab_id (tabs b))"
  obtains k where "findIndex (\<lambda>t. tab_id t = i) (tabs b) = Some k" "k < length (tabs b)"
    "tab_id (tabs b ! k) = i" "i \<notin> set (map tab_id (take k (tabs b)))"
    "tabs (removeTab b i) = take k (tabs b) @ drop (Suc k) (tabs b)"
proof -
  from assms have "findIndex (\<lambda>t. tab_id t = i) (tabs b) \<noteq> None"
    by (auto simp: findIndex_None_iff)
  then obtain k where k: "findIndex (\<lambda>t. tab_id t = i) (tabs b) = Some k"
    by blast
  from findIndex_Some [OF k] have p: "k < length (tabs b)" "tab_id (tabs b ! k) = i"
    "i \<notin> set (map tab_id (take k (tabs b)))"
    by auto
  have "tabs (removeTab b i) = take k (tabs b) @ drop (Suc k) (tabs b)"
    using k by (simp add: removeTab_def Let_def)
  with k p that show thesis by blast
qed

lemma removeTab_active_other:
  "activeTabId b \<noteq> Some i \<Longrightarrow> activeTabId (removeTab b i) = activeTabId b"
  by (simp add: removeTab_def Let_def split: option.splits)

lemma removeTab_active_closed:
  assumes "i \<in> set (map tab_id (tabs b))" and "activeTabId b = Some i"
  shows "activeTabId (removeTab b i) =
           (case tabs (removeTab b i) of [] \<Rightarrow> None | t # ts \<Rightarrow> Some (tab_id t))"
proof -
  from assms(1) obtain k where k: "findIndex (\<lambda>t. tab_id t = i) (tabs b) = Some k"
    by (rule removeTab_present)
  define ts where "ts = take k (tabs b) @ drop (Suc k) (tabs b)"
  have a: "activeTabId (removeTab b i) = (if length ts > 0 then Some (tab_id (ts ! 0)) else None)"
    and t: "tabs (removeTab b i) = ts"
    using k assms(2) by (simp_all add: removeTab_def Let_def ts_def)
  show ?thesis
    unfolding a t by (cases ts) simp_all
qed

lemma removeTab_active_ok: "active_ok b \<Longrightarrow> active_ok (removeTab b i)"
proof (cases "i \<in> set (map tab_id (tabs b))")
  case False
  assume "active_ok b"
  with False show ?thesis by (simp add: removeTab_absent)
next
  case True
  assume ok: "active_ok b"
  from True obtain k where k: "k < length (tabs b)" "tab_id (tabs b ! k) = i"
    "tabs (removeTab b i) = take k (tabs b) @ drop (Suc k) (tabs b)"
    by (rule removeTab_present)
  show ?thesis
  proof (cases "activeTabId b = Some i")
    case True
    from removeTab_active_closed [OF \<open>i \<in> set (map tab_id (tabs b))\<close> True]
    show ?thesis
      by (cases "tabs (removeTab b i)") (simp_all add: active_ok_def)
  next
    case False
    show ?thesis
    proof (cases "activeTabId b")
      case None
      with False show ?thesis by (simp add: active_ok_def removeTab_active_other)
    next
      case (Some a)
      with False have ai: "a \<noteq> i" by simp
      from ok Some have "a \<in> tab_id ` set (tabs b)" by (simp add: active_ok_def)
      then obtain t where t: "t \<in> set (tabs b)" "tab_id t = a" by blast
      from t(1) set_without_nth [OF k(1)]
      have "t = tabs b ! k \<or> t \<in> set (take k (tabs b) @ drop (Suc k) (tabs b))"
        by blast
      with t(2) ai k(2) have "t \<in> set (take k (tabs b) @ drop (Suc k) (tabs b))"
        by blast
      with t(2) k(3) have "a \<in> set (map tab_id (tabs (removeTab b i)))"
        by force
      with Some False show ?thesis by (simp add: active_ok_def removeTab_active_other)
    qed
  qed
qed

text \<open>
  Claim C5. \<open>removeTab\<close> with an identifier no tab carries changes nothing. Otherwise it
  removes the first tab carrying it (the only one when identifiers are distinct, and then
  the identifier is gone); when that identifier was the active one, the new active one is
  that of the first remaining tab, or none when no tab remains; another active identifier
  stays. So an active identifier that named a present tab before names one after; in
  every reachable state it does (\<open>reachable_reg_inv\<close>).
\<close>

theorem removeTab_close:
  "(i \<notin> set (map tab_id (tabs b)) \<longrightarrow> removeTab b i = b) \<and>
   (i \<in> set (map tab_id (tabs b)) \<longrightarrow>
      (\<exists>pre t post. tabs b = pre @ t # post \<and> tab_id t = i \<and> i \<notin> set (map tab_id pre) \<and>
         tabs (removeTab b i) = pre @ post)) \<and>
   (i \<in> set (map tab_id (tabs b)) \<and> activeTabId b = Some i \<longrightarrow>
      activeTabId (removeTab b i) =
        (case tabs (removeTab b i) of [] \<Rightarrow> None | t # ts \<Rightarrow> Some (tab_id t))) \<and>
   (activeTabId b \<noteq> Some i \<longrightarrow> activeTabId (removeTab b i) = activeTabId b) \<and>
   (distinct (map tab_id (tabs b)) \<longrightarrow> i \<notin> set (map tab_id (tabs (removeTab b i)))) \<and>
   (active_ok b \<longrightarrow> active_ok (removeTab b i))"
proof (intro conjI impI)
  assume "i \<notin> set (map tab_id (tabs b))"
  then show "removeTab b i = b" by (rule removeTab_absent)
next
  assume "i \<in> set (map tab_id (tabs b))"
  then obtain k where k: "k < length (tabs b)" "tab_id (tabs b ! k) = i"
    "i \<notin> set (map tab_id (take k (tabs b)))"
    "tabs (removeTab b i) = take k (tabs b) @ drop (Suc k) (tabs b)"
    by (rule removeTab_present)
  have "tabs b = take k (tabs b) @ (tabs b ! k) # drop (Suc k) (tabs b)"
    using k(1) by (rule id_take_nth_drop)
  with k show "\<exists>pre t post. tabs b = pre @ t # post \<and> tab_id t = i \<and> i \<notin> set (map tab_id pre) \<and>
         tabs (removeTab b i) = pre @ post"
    by blast
next
  assume "i \<in> set (map tab_id (tabs b)) \<and> activeTabId b = Some i"
  then show "activeTabId (removeTab b i) =
        (case tabs (removeTab b i) of [] \<Rightarrow> None | t # ts \<Rightarrow> Some (tab_id t))"
    by (simp add: removeTab_active_closed)
next
  assume "activeTabId b \<noteq> Some i"
  then show "activeTabId (removeTab b i) = activeTabId b" by (rule removeTab_active_other)
next
  assume d: "distinct (map tab_id (tabs b))"
  show "i \<notin> set (map tab_id (tabs (removeTab b i)))"
  proof (cases "i \<in> set (map tab_id (tabs b))")
    case False
    then show ?thesis by (simp add: removeTab_absent)
  next
    case True
    then obtain k where k: "k < length (tabs b)" "tab_id (tabs b ! k) = i"
      "tabs (removeTab b i) = take k (tabs b) @ drop (Suc k) (tabs b)"
      by (rule removeTab_present)
    have "map tab_id (tabs b) =
        map tab_id (take k (tabs b)) @ i # map tab_id (drop (Suc k) (tabs b))"
      using map_split_nth [OF k(1), of tab_id] k(2) by simp
    with d have "distinct (map tab_id (take k (tabs b)) @ i # map tab_id (drop (Suc k) (tabs b)))"
      by simp
    then have "i \<notin> set (map tab_id (take k (tabs b))) \<and> i \<notin> set (map tab_id (drop (Suc k) (tabs b)))"
      by simp
    with k(3) show ?thesis by simp
  qed
next
  assume "active_ok b"
  then show "active_ok (removeTab b i)" by (rule removeTab_active_ok)
qed

lemma addTab_full:
  "maxTabs b \<le> length (tabs b) \<Longrightarrow> addTab b u now now' = (b, None)"
  by (simp add: addTab_def)

lemma addTab_room:
  "length (tabs b) < maxTabs b \<Longrightarrow>
   addTab b u now now' = (b\<lparr>tabs := tabs b @ [new_tab u now now']\<rparr>, Some (new_tab u now now'))"
  by (simp add: addTab_def)

lemma addTab_capacity:
  "length (tabs b) \<le> maxTabs b \<Longrightarrow>
   length (tabs (fst (addTab b u now now'))) \<le> maxTabs (fst (addTab b u now now')) \<and>
   maxTabs (fst (addTab b u now now')) = maxTabs b"
  by (simp add: addTab_def)

theorem removeTab_close_witness:
  "let b = fst (addTab (fst (addTab newBrowserState [] 7 7)) [] 8 8) \<lparr>activeTabId := Some (js ''tab-7'')\<rparr>
   in js ''tab-7'' \<in> set (map tab_id (tabs b)) \<and> js ''tab-9'' \<notin> set (map tab_id (tabs b)) \<and>
      activeTabId b = Some (js ''tab-7'') \<and> activeTabId b \<noteq> Some (js ''tab-8'') \<and>
      distinct (map tab_id (tabs b)) \<and> active_ok b \<and>
      removeTab b (js ''tab-9'') = b \<and>
      map tab_id (tabs (removeTab b (js ''tab-7''))) = [js ''tab-8''] \<and>
      activeTabId (removeTab b (js ''tab-7'')) = Some (js ''tab-8'') \<and>
      activeTabId (removeTab b (js ''tab-8'')) = Some (js ''tab-7'') \<and>
      js ''tab-7'' \<notin> set (map tab_id (tabs (removeTab b (js ''tab-7'')))) \<and>
      active_ok (removeTab b (js ''tab-7''))"
proof -
  define b where "b = fst (addTab (fst (addTab newBrowserState [] 7 7)) [] 8 8) \<lparr>activeTabId := Some (js ''tab-7'')\<rparr>"
  have ids: "map tab_id (tabs b) = [js ''tab-7'', js ''tab-8'']"
    and act: "activeTabId b = Some (js ''tab-7'')"
    by (simp_all add: b_def addTab_def newBrowserState_def new_tab_def decimal.simps js_def)
  have ne: "js ''tab-7'' \<noteq> js ''tab-8''" "js ''tab-7'' \<noteq> js ''tab-9''" "js ''tab-8'' \<noteq> js ''tab-9''"
    by (simp_all add: js_def)
  have h: "js ''tab-7'' \<in> set (map tab_id (tabs b))" "js ''tab-9'' \<notin> set (map tab_id (tabs b))"
    "activeTabId b \<noteq> Some (js ''tab-8'')" "distinct (map tab_id (tabs b))" "active_ok b"
    using ne by (simp_all add: ids act active_ok_def)
  have r7: "map tab_id (tabs (removeTab b (js ''tab-7''))) = [js ''tab-8'']"
    by (simp add: b_def removeTab_def addTab_def newBrowserState_def new_tab_def decimal.simps js_def Let_def)
  note c9 = removeTab_close [of "js ''tab-9''" b]
  note c7 = removeTab_close [of "js ''tab-7''" b]
  note c8 = removeTab_close [of "js ''tab-8''" b]
  have "removeTab b (js ''tab-9'') = b"
    using c9 h by blast
  moreover have "activeTabId (removeTab b (js ''tab-7'')) = Some (js ''tab-8'')"
  proof -
    from c7 h act have "activeTabId (removeTab b (js ''tab-7'')) =
        (case tabs (removeTab b (js ''tab-7'')) of [] \<Rightarrow> None | t # ts \<Rightarrow> Some (tab_id t))"
      by blast
    with r7 show ?thesis by (cases "tabs (removeTab b (js ''tab-7''))") auto
  qed
  moreover have "activeTabId (removeTab b (js ''tab-8'')) = Some (js ''tab-7'')"
    using c8 h act by metis
  moreover have "js ''tab-7'' \<notin> set (map tab_id (tabs (removeTab b (js ''tab-7''))))"
    using c7 h by blast
  moreover have "active_ok (removeTab b (js ''tab-7''))"
    using c7 h by blast
  ultimately show ?thesis
    using h act r7 unfolding b_def [symmetric] Let_def by blast
qed

text \<open>
  Claim C8. With exactly one tab, \<open>closeTab\<close> returns the state as it was, whatever the
  identifier: the tabs, the active tab and every field of the tab stay. In the first
  variant the one-tab branch only empties \<open>openedWindows\<close>.
\<close>

theorem closeTab_last_tab:
  "(length (tabs b) = 1 \<longrightarrow> closeTab b i = b) \<and>
   (length (tabs_v1 c) = 1 \<longrightarrow>
      closeTab_v1 c i = c\<lparr>openedWindows := []\<rparr> \<and> tabs_v1 (closeTab_v1 c i) = tabs_v1 c \<and>
      activeTabId_v1 (closeTab_v1 c i) = activeTabId_v1 c)"
  by (simp add: closeTab_def closeTab_v1_def)

theorem closeTab_last_tab_witness:
  "let b = step hostOf newBrowserState (DOMContentLoaded 7 7);
       c = fst (addTab_v1 newBrowserState_v1 [] 7 7) \<lparr>activeTabId_v1 := Some (js ''tab-7'')\<rparr>
   in length (tabs b) = 1 \<and> closeTab b (js ''tab-7'') = b \<and> map tab_id (tabs b) = [js ''tab-7''] \<and>
      length (tabs_v1 c) = 1 \<and> tabs_v1 (closeTab_v1 c (js ''tab-7'')) = tabs_v1 c \<and>
      activeTabId_v1 (closeTab_v1 c (js ''tab-7'')) = activeTabId_v1 c"
proof -
  define b where "b = step hostOf newBrowserState (DOMContentLoaded 7 7)"
  define c where "c = fst (addTab_v1 newBrowserState_v1 [] 7 7) \<lparr>activeTabId_v1 := Some (js ''tab-7'')\<rparr>"
  have t: "map tab_id (tabs b) = [js ''tab-7'']"
    by (simp add: b_def step_def initBrowser_def addTab_ui_def addTab_def newBrowserState_def
      new_tab_def switchTab_def getActiveTab_def find_tab_def Let_def createTabElement_def
      showWelcomeScreen_def updateNavButtons_def decimal.simps js_def)
  then have hb: "length (tabs b) = 1"
    by (metis length_map length_Cons list.size(3) One_nat_def)
  have hc: "length (tabs_v1 c) = 1"
    by (simp add: c_def addTab_v1_def newBrowserState_v1_def Let_def)
  from closeTab_last_tab [of b "js ''tab-7''" c] hb hc t show ?thesis
    unfolding b_def [symmetric] c_def [symmetric] Let_def by blast
qed

text \<open>
  Claim C4, at an input where it fails. The rejecting branch is as claimed
  (\<open>addTab_full\<close>, \<open>addTab_room\<close>, \<open>addTab_capacity\<close>, \<open>reachable_capacity\<close>), but below capacity the new
  identifier is \<open>tab-\<close> followed by the clock reading, which need not be fresh: a tab
  added while the clock still reads 7 gets the identifier of the tab already there.
\<close>

theorem addTab_id_not_fresh:
  "let b = fst (addTab newBrowserState [] 7 7)
   in length (tabs b) < maxTabs b \<and> map tab_id (tabs b) = [js ''tab-7''] \<and>
      map_option tab_id (snd (addTab b [] 7 8)) = Some (js ''tab-7'')"
  by (simp add: addTab_def newBrowserState_def new_tab_def decimal.simps js_def)

text \<open>
  Claim C9, at an input where it fails. Two tabs added at the same clock reading carry the
  same identifier, in both variants; an update addressed to the second then lands on the
  first. Tabs added at different clock readings do get different identifiers
  (\<open>new_tab_id_inj\<close>), and no event changes the identifier of a tab (\<open>step_tab_ids\<close>).
\<close>

theorem addTab_same_millisecond:
  "let b = fst (addTab (fst (addTab newBrowserState [] 7 7)) [] 7 7);
       c = fst (addTab_v1 (fst (addTab_v1 newBrowserState_v1 [] 7 7)) [] 7 7)
   in map tab_id (tabs b) = [js ''tab-7'', js ''tab-7''] \<and>
      map title (tabs (updateTabTitle b (tab_id (tabs b ! 1)) (js ''second''))) =
        [js ''second'', js ''New Tab''] \<and>
      map id_v1 (tabs_v1 c) = [js ''tab-7'', js ''tab-7'']"
  by (simp add: addTab_def newBrowserState_def new_tab_def decimal.simps js_def updateTabTitle_def
    addTab_v1_def newBrowserState_v1_def Let_def)

section \<open>Properties of the sanitizer\<close>

lemma dropWhile_hd: "dropWhile P xs \<noteq> [] \<Longrightarrow> \<not> P (hd (dropWhile P xs))"
  by (simp add: hd_dropWhile)

lemma trim_Nil_iff: "trim s = [] \<longleftrightarrow> list_all isSpace s"
proof
  assume "list_all isSpace s"
  then have d: "dropWhile isSpace s = []"
    by (simp add: list_all_iff dropWhile_eq_Nil_conv)
  show "trim s = []"
    unfolding trim_def d by simp
next
  assume t: "trim s = []"
  show "list_all isSpace s"
  proof (rule ccontr)
    assume "\<not> list_all isSpace s"
    then have ne: "dropWhile isSpace s \<noteq> []"
      by (simp add: list_all_iff dropWhile_eq_Nil_conv)
    then have "\<not> isSpace (hd (dropWhile isSpace s))"
      by (rule dropWhile_hd)
    moreover from t have "\<forall>x\<in>set (dropWhile isSpace s). isSpace x"
      by (simp add: trim_def dropWhile_eq_Nil_conv)
    ultimately show False
      using ne by (metis list.set_sel(1))
  qed
qed

lemma trim_decomp:
  "\<exists>pre post. s = pre @ trim s @ post \<and> list_all isSpace pre \<and> list_all isSpace post"
proof -
  define m where "m = dropWhile isSpace s"
  have 1: "s = takeWhile isSpace s @ m"
    by (simp add: m_def)
  have 2: "rev m = takeWhile isSpace (rev m) @ dropWhile isSpace (rev m)"
    by simp
  have "m = rev (rev m)" by simp
  also have "\<dots> = rev (takeWhile isSpace (rev m) @ dropWhile isSpace (rev m))"
    by (simp only: takeWhile_dropWhile_id)
  also have "\<dots> = rev (dropWhile isSpace (rev m)) @ rev (takeWhile isSpace (rev m))"
    by (simp only: rev_append)
  also have "rev (dropWhile isSpace (rev m)) = trim s"
    by (simp only: trim_def m_def)
  finally have 3: "m = trim s @ rev (takeWhile isSpace (rev m))" .
  have a: "list_all isSpace (takeWhile isSpace s)"
    by (simp add: list_all_iff) (meson set_takeWhileD)
  have b: "list_all isSpace (rev (takeWhile isSpace (rev m)))"
    by (simp add: list_all_iff) (meson set_takeWhileD)
  from 1 3 have "s = takeWhile isSpace s @ trim s @ rev (takeWhile isSpace (rev m))"
    by simp
  with a b show ?thesis by blast
qed

lemma trim_ends:
  assumes "trim s \<noteq> []"
  shows "\<not> isSpace (hd (trim s)) \<and> \<not> isSpace (last (trim s))"
proof -
  define m where "m = dropWhile isSpace s"
  define k where "k = dropWhile isSpace (rev m)"
  have t: "trim s = rev k"
    by (simp add: trim_def k_def m_def)
  with assms have kne: "k \<noteq> []" by simp
  then have l: "\<not> isSpace (hd k)"
    unfolding k_def by (rule dropWhile_hd)
  have mne: "m \<noteq> []"
    using kne by (auto simp: k_def)
  then have hm: "\<not> isSpace (hd m)"
    unfolding m_def by (rule dropWhile_hd)
  have "rev m = takeWhile isSpace (rev m) @ k"
    by (simp add: k_def)
  then have "m = rev k @ rev (takeWhile isSpace (rev m))"
    by (metis rev_append rev_rev_ident)
  with kne have "hd m = hd (rev k)"
    by (metis hd_append2 rev_is_Nil_conv)
  with hm l t kne show ?thesis
    by (simp add: last_rev)
qed

lemma trim_unchanged:
  "s \<noteq> [] \<Longrightarrow> \<not> isSpace (hd s) \<Longrightarrow> \<not> isSpace (last s) \<Longrightarrow> trim s = s"
proof -
  assume a: "s \<noteq> []" "\<not> isSpace (hd s)" "\<not> isSpace (last s)"
  then have 1: "dropWhile isSpace s = s"
    by (cases s) simp_all
  from a have "rev s \<noteq> []" "\<not> isSpace (hd (rev s))"
    by (simp_all add: hd_rev)
  then have "dropWhile isSpace (rev s) = rev s"
    by (cases "rev s") simp_all
  with 1 show ?thesis by (simp add: trim_def)
qed

lemma isSpace_space: "isSpace 0x20"
  by (simp add: isSpace_def)

lemma isValidUrl_hostnameLike:
  assumes "\<not> startsWith t (js ''http://'')" and "\<not> startsWith t (js ''https://'')"
  shows "isValidUrl parseURL t = hostnameLike parseURL t"
proof -
  have "\<not> list_ex isSpace t \<Longrightarrow> 0x20 \<notin> set t"
    using isSpace_space by (auto simp: list_ex_iff)
  then show ?thesis
    using assms by (auto simp: isValidUrl_def hostnameLike_def split: option.splits)
qed

lemma unreserved_not_surrogate: "unreserved c \<Longrightarrow> \<not> isHigh c \<and> \<not> isLow c"
  unfolding unreserved_def isHigh_def isLow_def
  by (auto simp: word_le_nat_alt)

lemma encode_wellFormed: "wellFormed s \<Longrightarrow> \<exists>e. encodeURIComponent s = Some e"
proof (induction s rule: wellFormed.induct)
  case 1
  then show ?case by simp
next
  case (2 c)
  then show ?case by simp
next
  case (3 c d ds)
  show ?case
  proof (cases "isHigh c")
    case True
    with "3.prems" have "isLow d" "wellFormed ds" by simp_all
    with "3.IH"(1) True obtain e where "encodeURIComponent ds = Some e" by blast
    moreover have "\<not> unreserved c" "\<not> isLow c"
      using True unreserved_not_surrogate by (auto simp: isHigh_def isLow_def word_le_nat_alt)
    ultimately show ?thesis
      using True \<open>isLow d\<close> by simp
  next
    case False
    with "3.prems" have "\<not> isLow c" "wellFormed (d # ds)" by simp_all
    with "3.IH"(2) False obtain e where "encodeURIComponent (d # ds) = Some e" by blast
    then show ?thesis
      using False \<open>\<not> isLow c\<close> by simp
  qed
qed

text \<open>
  Claim C3, amended. \<open>sanitizeUrl\<close> first removes the white space around the input; the
  precedence is that of the trimmed text. White space only: the default URL. Trimmed text
  beginning with \<open>http://\<close> or \<open>https://\<close>: the trimmed text (the input itself when
  no white space surrounds it). Trimmed text that looks like a host name: the trimmed text
  after \<open>https://\<close>. Any other trimmed text without a lone surrogate: its
  \<open>encodeURIComponent\<close> form after the search template. The four examples of the claim
  hold, the second for a parser that accepts \<open>https://example.com\<close>.
\<close>

theorem sanitizeUrl_precedence:
  "(list_all isSpace input \<longrightarrow> sanitizeUrl parseURL input = Inr (js ''https://www.google.com'')) \<and>
   (\<not> list_all isSpace input \<and>
    (startsWith (trim input) (js ''http://'') \<or> startsWith (trim input) (js ''https://'')) \<longrightarrow>
      sanitizeUrl parseURL input = Inr (trim input)) \<and>
   (\<not> list_all isSpace input \<and> \<not> startsWith (trim input) (js ''http://'') \<and>
    \<not> startsWith (trim input) (js ''https://'') \<and> hostnameLike parseURL (trim input) \<longrightarrow>
      sanitizeUrl parseURL input = Inr (js ''https://'' @ trim input)) \<and>
   (\<not> list_all isSpace input \<and> \<not> startsWith (trim input) (js ''http://'') \<and>
    \<not> startsWith (trim input) (js ''https://'') \<and> \<not> hostnameLike parseURL (trim input) \<and>
    wellFormed (trim input) \<longrightarrow>
      (\<exists>e. encodeURIComponent (trim input) = Some e \<and>
           sanitizeUrl parseURL input = Inr (js ''https://www.google.com/search?q='' @ e))) \<and>
   (input \<noteq> [] \<and> \<not> isSpace (hd input) \<and> \<not> isSpace (last input) \<longrightarrow> trim input = input) \<and>
   (\<exists>pre post. input = pre @ trim input @ post \<and> list_all isSpace pre \<and> list_all isSpace post) \<and>
   sanitizeUrl parseURL [] = Inr (js ''https://www.google.com'') \<and>
   (parseURL (js ''https://example.com'') \<noteq> None \<longrightarrow>
      sanitizeUrl parseURL (js ''example.com'') = Inr (js ''https://example.com'')) \<and>
   sanitizeUrl parseURL (js ''https://x.com'') = Inr (js ''https://x.com'') \<and>
   sanitizeUrl parseURL (js ''hello world'') =
     Inr (js ''https://www.google.com/search?q=hello%20world'')"
proof -
  define t where "t = trim input"
  have r1: "sanitizeUrl parseURL input = Inr (js ''https://www.google.com'')"
    if "list_all isSpace input"
  proof -
    from that have "trim input = []" by (simp add: trim_Nil_iff)
    then show ?thesis by (simp add: sanitizeUrl_def)
  qed
  have ne: "t \<noteq> []" if "\<not> list_all isSpace input"
    using that by (simp add: t_def trim_Nil_iff)
  have r2: "sanitizeUrl parseURL input = Inr t"
    if "\<not> list_all isSpace input" "startsWith t (js ''http://'') \<or> startsWith t (js ''https://'')"
    using ne [OF that(1)] that(2) by (simp add: sanitizeUrl_def t_def [symmetric])
  have r3: "sanitizeUrl parseURL input = Inr (js ''https://'' @ t)"
    if "\<not> list_all isSpace input" "\<not> startsWith t (js ''http://'')"
       "\<not> startsWith t (js ''https://'')" "hostnameLike parseURL t"
    using ne [OF that(1)] that(2,3,4) isValidUrl_hostnameLike [OF that(2,3), of parseURL]
    by (simp add: sanitizeUrl_def t_def [symmetric])
  have r4: "\<exists>e. encodeURIComponent t = Some e \<and>
           sanitizeUrl parseURL input = Inr (js ''https://www.google.com/search?q='' @ e)"
    if "\<not> list_all isSpace input" "\<not> startsWith t (js ''http://'')"
       "\<not> startsWith t (js ''https://'')" "\<not> hostnameLike parseURL t" "wellFormed t"
  proof -
    from encode_wellFormed [OF that(5)] obtain e where e: "encodeURIComponent t = Some e"
      by blast
    then have "sanitizeUrl parseURL input = Inr (js ''https://www.google.com/search?q='' @ e)"
      using ne [OF that(1)] that(2,3,4) isValidUrl_hostnameLike [OF that(2,3), of parseURL]
      by (simp add: sanitizeUrl_def t_def [symmetric])
    with e show ?thesis by blast
  qed
  have r5: "trim input = input" if "input \<noteq> [] \<and> \<not> isSpace (hd input) \<and> \<not> isSpace (last input)"
    using that by (simp add: trim_unchanged)
  have e1: "sanitizeUrl parseURL [] = Inr (js ''https://www.google.com'')"
    by (simp add: sanitize_defs)
  have e2: "sanitizeUrl parseURL (js ''example.com'') = Inr (js ''https://example.com'')"
    if "parseURL (js ''https://example.com'') \<noteq> None"
    using that by (auto simp add: sanitize_defs)
  have e3: "sanitizeUrl parseURL (js ''https://x.com'') = Inr (js ''https://x.com'')"
    by (simp add: sanitize_defs)
  have e4: "sanitizeUrl parseURL (js ''hello world'') =
     Inr (js ''https://www.google.com/search?q=hello%20world'')"
    by (simp add: sanitize_defs)
  from r1 r2 r3 r4 r5 trim_decomp [of input] e1 e2 e3 e4 show ?thesis
    unfolding t_def by blast
qed

theorem sanitizeUrl_precedence_witness:
  "list_all isSpace (js ''  '') \<and>
   sanitizeUrl hostOf (js ''  '') = Inr (js ''https://www.google.com'') \<and>
   \<not> list_all isSpace (js '' https://x.com '') \<and>
   startsWith (trim (js '' https://x.com '')) (js ''https://'') \<and>
   sanitizeUrl hostOf (js '' https://x.com '') = Inr (js ''https://x.com'') \<and>
   \<not> list_all isSpace (js ''example.com '') \<and>
   \<not> startsWith (trim (js ''example.com '')) (js ''http://'') \<and>
   \<not> startsWith (trim (js ''example.com '')) (js ''https://'') \<and>
   hostnameLike hostOf (trim (js ''example.com '')) \<and>
   sanitizeUrl hostOf (js ''example.com '') = Inr (js ''https://example.com'') \<and>
   \<not> list_all isSpace (js ''hello world'') \<and>
   \<not> startsWith (trim (js ''hello world'')) (js ''http://'') \<and>
   \<not> startsWith (trim (js ''hello world'')) (js ''https://'') \<and>
   \<not> hostnameLike hostOf (trim (js ''hello world'')) \<and>
   wellFormed (trim (js ''hello world'')) \<and>
   sanitizeUrl hostOf (js ''hello world'') = Inr (js ''https://www.google.com/search?q=hello%20world'') \<and>
   js ''hello world'' \<noteq> [] \<and> \<not> isSpace (hd (js ''hello world'')) \<and>
   \<not> isSpace (last (js ''hello world'')) \<and> trim (js ''hello world'') = js ''hello world'' \<and>
   hostOf (js ''https://example.com'') \<noteq> None \<and>
   sanitizeUrl hostOf (js ''example.com'') = Inr (js ''https://example.com'')"
proof -
  have t1: "trim (js '' https://x.com '') = js ''https://x.com''"
    and t2: "trim (js ''example.com '') = js ''example.com''"
    and t3: "trim (js ''hello world'') = js ''hello world''"
    by (simp_all add: trim_def isSpace_def js_def)
  have h1: "list_all isSpace (js ''  '')"
    by (simp add: isSpace_def js_def)
  have h2: "\<not> list_all isSpace (js '' https://x.com '')"
    "startsWith (trim (js '' https://x.com '')) (js ''https://'')"
    unfolding t1 by (simp_all add: isSpace_def js_def)
  have h3: "\<not> list_all isSpace (js ''example.com '')"
    "\<not> startsWith (trim (js ''example.com '')) (js ''http://'')"
    "\<not> startsWith (trim (js ''example.com '')) (js ''https://'')"
    "hostnameLike hostOf (trim (js ''example.com ''))"
    unfolding t2 by (simp_all add: isSpace_def js_def hostnameLike_def hostOf_def)
  have h4: "\<not> list_all isSpace (js ''hello world'')"
    "\<not> startsWith (trim (js ''hello world'')) (js ''http://'')"
    "\<not> startsWith (trim (js ''hello world'')) (js ''https://'')"
    "\<not> hostnameLike hostOf (trim (js ''hello world''))"
    "wellFormed (trim (js ''hello world''))"
    unfolding t3 by (simp_all add: isSpace_def js_def hostnameLike_def isHigh_def isLow_def)
  have h5: "js ''hello world'' \<noteq> []" "\<not> isSpace (hd (js ''hello world''))"
    "\<not> isSpace (last (js ''hello world''))"
    by (simp_all add: isSpace_def js_def)
  have h6: "hostOf (js ''https://example.com'') \<noteq> None"
    by (simp add: hostOf_def js_def)
  note a = sanitizeUrl_precedence [of "js ''  ''" hostOf]
  note b = sanitizeUrl_precedence [of "js '' https://x.com ''" hostOf]
  note c = sanitizeUrl_precedence [of "js ''example.com ''" hostOf]
  note d = sanitizeUrl_precedence [of "js ''hello world''" hostOf]
  have "sanitizeUrl hostOf (js ''  '') = Inr (js ''https://www.google.com'')"
    using a h1 by blast
  moreover have "sanitizeUrl hostOf (js '' https://x.com '') = Inr (js ''https://x.com'')"
    using b h2 t1 by metis
  moreover have "sanitizeUrl hostOf (js ''example.com '') = Inr (js ''https://example.com'')"
  proof -
    from c h3 have "sanitizeUrl hostOf (js ''example.com '') = Inr (js ''https://'' @ trim (js ''example.com ''))"
      by blast
    then show ?thesis unfolding t2 by (simp add: js_def)
  qed
  moreover have "sanitizeUrl hostOf (js ''hello world'') = Inr (js ''https://www.google.com/search?q=hello%20world'')"
    using d by blast
  moreover have "trim (js ''hello world'') = js ''hello world''"
    using d h5 by blast
  moreover have "sanitizeUrl hostOf (js ''example.com'') = Inr (js ''https://example.com'')"
    using d h6 by blast
  ultimately show ?thesis
    using h1 h2 h3 h4 h5 h6 by blast
qed

text \<open>
  Claim C3 as stated fails: an input that begins with \<open>https://\<close> and ends with a space
  is not returned unchanged, it is returned without the space.
\<close>

theorem sanitizeUrl_trims_scheme_input:
  "startsWith (js ''https://x.com '') (js ''https://'') \<and>
   sanitizeUrl hostOf (js ''https://x.com '') = Inr (js ''https://x.com'') \<and>
   js ''https://x.com'' \<noteq> js ''https://x.com ''"
  by (simp add: sanitize_defs)

text \<open>A lone surrogate reaches \<open>encodeURIComponent\<close>, which throws.\<close>

lemma sanitizeUrl_lone_surrogate: "sanitizeUrl parseURL [0xD800] = Inl URIError"
  by (simp add: sanitize_defs)

section \<open>Invariants of the page\<close>

subsection \<open>The active tab and the tab bar\<close>

named_theorems reg_frame

lemma map_tab_id_update_tab:
  "(\<And>t. tab_id (f t) = tab_id t) \<Longrightarrow> map tab_id (update_tab i f ts) = map tab_id ts"
  by (induction ts) auto

lemma simple_reg [reg_frame]:
  "tabs (showLoading b) = tabs b" "activeTabId (showLoading b) = activeTabId b" "tabBar (showLoading b) = tabBar b"
  "tabs (hideLoading b) = tabs b" "activeTabId (hideLoading b) = activeTabId b" "tabBar (hideLoading b) = tabBar b"
  "tabs (showWelcomeScreen b) = tabs b" "activeTabId (showWelcomeScreen b) = activeTabId b" "tabBar (showWelcomeScreen b) = tabBar b"
  "tabs (hideWelcomeScreen b) = tabs b" "activeTabId (hideWelcomeScreen b) = activeTabId b" "tabBar (hideWelcomeScreen b) = tabBar b"
  "tabs (showError b m u) = tabs b" "activeTabId (showError b m u) = activeTabId b" "tabBar (showError b m u) = tabBar b"
  "tabs (hideError b) = tabs b" "activeTabId (hideError b) = activeTabId b" "tabBar (hideError b) = tabBar b"
  "tabs (clearTimeout b k) = tabs b" "activeTabId (clearTimeout b k) = activeTabId b" "tabBar (clearTimeout b k) = tabBar b"
  "tabs (update_iframe r g b) = tabs b" "activeTabId (update_iframe r g b) = activeTabId b" "tabBar (update_iframe r g b) = tabBar b"
  "tabs (fst (setTimeout b cb d)) = tabs b" "activeTabId (fst (setTimeout b cb d)) = activeTabId b" "tabBar (fst (setTimeout b cb d)) = tabBar b"
  by (simp_all add: showLoading_def hideLoading_def showWelcomeScreen_def hideWelcomeScreen_def
    showError_def hideError_def clearTimeout_def update_iframe_def setTimeout_def)

lemma updateTabBar_reg [reg_frame]:
  "tabs (updateTabBar b) = tabs b" "activeTabId (updateTabBar b) = activeTabId b"
  "map el_id (tabBar (updateTabBar b)) = map el_id (tabBar b)"
  by (simp_all add: updateTabBar_def o_def split: option.splits cong: map_cong)

lemma updateNavButtons_reg [reg_frame]:
  "tabs (updateNavButtons b) = tabs b" "activeTabId (updateNavButtons b) = activeTabId b"
  "tabBar (updateNavButtons b) = tabBar b"
  by (simp_all add: updateNavButtons_def split: option.splits)

lemma tab_updates_reg [reg_frame]:
  "map tab_id (tabs (updateTabUrl b i u)) = map tab_id (tabs b)"
  "activeTabId (updateTabUrl b i u) = activeTabId b" "tabBar (updateTabUrl b i u) = tabBar b"
  "map tab_id (tabs (updateTabTitle b i u)) = map tab_id (tabs b)"
  "activeTabId (updateTabTitle b i u) = activeTabId b" "tabBar (updateTabTitle b i u) = tabBar b"
  "map tab_id (tabs (addToHistory b i u)) = map tab_id (tabs b)"
  "activeTabId (addToHistory b i u) = activeTabId b" "tabBar (addToHistory b i u) = tabBar b"
  "map tab_id (tabs (fst (createTabIframe b i))) = map tab_id (tabs b)"
  "activeTabId (fst (createTabIframe b i)) = activeTabId b" "tabBar (fst (createTabIframe b i)) = tabBar b"
  "map tab_id (tabs (fst (goBack b i))) = map tab_id (tabs b)"
  "activeTabId (fst (goBack b i)) = activeTabId b" "tabBar (fst (goBack b i)) = tabBar b"
  "map tab_id (tabs (fst (goForward b i))) = map tab_id (tabs b)"
  "activeTabId (fst (goForward b i)) = activeTabId b" "tabBar (fst (goForward b i)) = tabBar b"
  by (simp_all add: updateTabUrl_def updateTabTitle_def addToHistory_def createTabIframe_def
    goBack_def goForward_def push_history_def Let_def map_tab_id_update_tab split: option.splits)

lemma cancelLoadTimeout_reg [reg_frame]:
  "tabs (cancelLoadTimeout b r) = tabs b" "activeTabId (cancelLoadTimeout b r) = activeTabId b"
  "tabBar (cancelLoadTimeout b r) = tabBar b"
  by (simp_all add: cancelLoadTimeout_def reg_frame split: option.splits)

lemma startLoadTimeout_reg [reg_frame]:
  "tabs (startLoadTimeout b r u) = tabs b" "activeTabId (startLoadTimeout b r u) = activeTabId b"
  "tabBar (startLoadTimeout b r u) = tabBar b"
  by (simp_all add: startLoadTimeout_def setTimeout_def clearTimeout_def update_iframe_def Let_def
    split: option.splits)

lemma onLoad_reg [reg_frame]:
  "tabs (onLoad b r) = tabs b" "activeTabId (onLoad b r) = activeTabId b" "tabBar (onLoad b r) = tabBar b"
  by (simp_all add: onLoad_def Let_def reg_frame)

lemma onError_reg [reg_frame]:
  "tabs (onError b r) = tabs b" "activeTabId (onError b r) = activeTabId b" "tabBar (onError b r) = tabBar b"
  by (simp_all add: onError_def Let_def reg_frame)

lemma settleWindow_reg [reg_frame]:
  "map tab_id (tabs (settleWindow pu b r w)) = map tab_id (tabs b)"
  "activeTabId (settleWindow pu b r w) = activeTabId b"
  "map el_id (tabBar (settleWindow pu b r w)) = map el_id (tabBar b)"
  by (simp_all add: settleWindow_def reg_frame split: option.splits)

lemma settleCheck_reg [reg_frame]:
  "map tab_id (tabs (settleCheck pu b r doc w)) = map tab_id (tabs b)"
  "activeTabId (settleCheck pu b r doc w) = activeTabId b"
  "map el_id (tabBar (settleCheck pu b r doc w)) = map el_id (tabBar b)"
  by (simp_all add: settleCheck_def Let_def reg_frame split: option.splits doc_probe.splits)

lemma finalCheck_reg [reg_frame]:
  "tabs (finalCheck b r h doc) = tabs b" "activeTabId (finalCheck b r h doc) = activeTabId b"
  "tabBar (finalCheck b r h doc) = tabBar b"
  by (simp_all add: finalCheck_def reg_frame split: doc_probe.splits)

lemma loadTimedOut_reg [reg_frame]:
  "tabs (loadTimedOut pu b r u) = tabs b" "activeTabId (loadTimedOut pu b r u) = activeTabId b"
  "tabBar (loadTimedOut pu b r u) = tabBar b"
  by (simp_all add: loadTimedOut_def reg_frame split: option.splits)

lemma runCallback_reg [reg_frame]:
  "map tab_id (tabs (runCallback pu b cb doc w)) = map tab_id (tabs b)"
  "activeTabId (runCallback pu b cb doc w) = activeTabId b"
  "map el_id (tabBar (runCallback pu b cb doc w)) = map el_id (tabBar b)"
  by (simp_all add: runCallback_def reg_frame split: callback.splits)

lemma navigateToUrl_reg [reg_frame]:
  "map tab_id (tabs (navigateToUrl pu b u)) = map tab_id (tabs b)"
  "activeTabId (navigateToUrl pu b u) = activeTabId b"
  "map el_id (tabBar (navigateToUrl pu b u)) = map el_id (tabBar b)"
  by (simp_all add: navigateToUrl_def Let_def case_prod_beta reg_frame split: option.splits sum.splits)

lemma showUrl_reg [reg_frame]:
  "map tab_id (tabs (showUrl b t r res)) = map tab_id (tabs b)"
  "activeTabId (showUrl b t r res) = activeTabId b"
  "tabBar (showUrl b t r res) = tabBar b"
  by (simp_all add: showUrl_def Let_def reg_frame split: jsresult.splits)

lemma goBack_ui_reg [reg_frame]:
  "map tab_id (tabs (goBack_ui b)) = map tab_id (tabs b)"
  "activeTabId (goBack_ui b) = activeTabId b"
  "tabBar (goBack_ui b) = tabBar b"
  by (simp_all add: goBack_ui_def Let_def case_prod_beta reg_frame split: option.splits)

lemma goForward_ui_reg [reg_frame]:
  "map tab_id (tabs (goForward_ui b)) = map tab_id (tabs b)"
  "activeTabId (goForward_ui b) = activeTabId b"
  "tabBar (goForward_ui b) = tabBar b"
  by (simp_all add: goForward_ui_def Let_def case_prod_beta reg_frame split: option.splits)

lemma reload_reg [reg_frame]:
  "tabs (reload b) = tabs b" "activeTabId (reload b) = activeTabId b" "tabBar (reload b) = tabBar b"
  by (simp_all add: reload_def reg_frame split: option.splits)

lemma retry_reg [reg_frame]:
  "map tab_id (tabs (retry pu b)) = map tab_id (tabs b)"
  "activeTabId (retry pu b) = activeTabId b"
  "map el_id (tabBar (retry pu b)) = map el_id (tabBar b)"
  by (simp_all add: retry_def Let_def reg_frame)

lemma switchTab_reg:
  "map tab_id (tabs (switchTab b i)) = map tab_id (tabs b)"
  "activeTabId (switchTab b i) = Some i"
  "map el_id (tabBar (switchTab b i)) = map el_id (tabBar b)"
  by (simp_all add: switchTab_def Let_def case_prod_beta reg_frame o_def
    split: option.splits)

lemma reg_inv_frame:
  assumes "reg_inv b" and "map tab_id (tabs b') = map tab_id (tabs b)"
    and "activeTabId b' = activeTabId b" and "map el_id (tabBar b') = map el_id (tabBar b)"
  shows "reg_inv b'"
  using assms by (simp add: reg_inv_def active_ok_def bar_ok_def del: set_map split: option.splits)

lemma switchTab_inv:
  assumes "bar_ok b" and "i \<in> set (map tab_id (tabs b))"
  shows "reg_inv (switchTab b i)"
  using assms by (simp add: reg_inv_def active_ok_def bar_ok_def switchTab_reg del: set_map)

lemma addTab_ui_inv:
  assumes "reg_inv b"
  shows "reg_inv (addTab_ui pu b u now now')"
proof (cases "if u = [] then Inr [] else sanitizeUrl pu u")
  case (Inl e)
  with assms show ?thesis by (simp add: addTab_ui_def)
next
  case (Inr s)
  show ?thesis
  proof (cases "maxTabs b \<le> length (tabs b)")
    case True
    with Inr assms show ?thesis by (simp add: addTab_ui_def addTab_def)
  next
    case False
    define t where "t = new_tab s now now'"
    define b2 where "b2 = b\<lparr>tabs := tabs b @ [t], tabBar := tabBar b @ [createTabElement t],
      activeTabId := Some (tab_id t)\<rparr>"
    have bar: "bar_ok b2"
      using assms by (simp add: b2_def reg_inv_def bar_ok_def createTabElement_def)
    have mem: "tab_id t \<in> set (map tab_id (tabs b2))"
      by (simp add: b2_def)
    have sw: "reg_inv (switchTab b2 (tab_id t))"
      using bar mem by (rule switchTab_inv)
    have "addTab_ui pu b u now now' =
        (if s \<noteq> [] \<and> s \<noteq> js ''about:blank''
         then navigateToUrl pu (switchTab b2 (tab_id t)) s else switchTab b2 (tab_id t))"
      using Inr False by (simp add: addTab_ui_def addTab_def Let_def t_def b2_def)
    moreover have "reg_inv (navigateToUrl pu (switchTab b2 (tab_id t)) s)"
      using sw by (rule reg_inv_frame) (simp_all add: reg_frame)
    ultimately show ?thesis using sw by simp
  qed
qed

lemma findIndex_remove1:
  "findIndex (\<lambda>t. f t = i) ts = Some k \<Longrightarrow> map f (take k ts @ drop (Suc k) ts) = remove1 i (map f ts)"
proof (induction ts arbitrary: k)
  case Nil
  then show ?case by simp
next
  case (Cons t ts)
  show ?case
  proof (cases "f t = i")
    case True
    with Cons.prems show ?thesis by simp
  next
    case False
    with Cons.prems obtain j where j: "findIndex (\<lambda>t. f t = i) ts = Some j" "k = Suc j"
      by (auto split: option.splits)
    from Cons.IH [OF j(1)] False j(2) show ?thesis by simp
  qed
qed

lemma removeTab_ids: "map tab_id (tabs (removeTab b i)) = remove1 i (map tab_id (tabs b))"
proof (cases "findIndex (\<lambda>t. tab_id t = i) (tabs b)")
  case None
  then have "i \<notin> set (map tab_id (tabs b))"
    by (auto simp: findIndex_None_iff)
  with None show ?thesis by (simp add: removeTab_def remove1_idem)
next
  case (Some k)
  from findIndex_remove1 [OF Some] Some show ?thesis
    by (simp add: removeTab_def Let_def)
qed

lemma removeTab_tabBar: "tabBar (removeTab b i) = tabBar b"
  by (simp add: removeTab_def Let_def split: option.splits)

lemma remove_element_ids: "map el_id (remove_element i es) = remove1 i (map el_id es)"
  by (induction es) auto

lemma closeTab_inv:
  assumes "reg_inv b"
  shows "reg_inv (closeTab b i)"
proof (cases "length (tabs b) = 1")
  case True
  with assms show ?thesis by (simp add: closeTab_def)
next
  case False
  define b2 where "b2 = removeTab b i \<lparr>tabBar := remove_element i (tabBar (removeTab b i))\<rparr>"
  have bar: "bar_ok b2"
    using assms
    by (simp add: b2_def bar_ok_def reg_inv_def removeTab_ids removeTab_tabBar remove_element_ids)
  have "active_ok (removeTab b i)"
    using assms by (simp add: reg_inv_def removeTab_active_ok)
  then have act: "active_ok b2"
    by (simp add: b2_def active_ok_def del: set_map split: option.splits)
  have inv2: "reg_inv b2"
    using bar act by (simp add: reg_inv_def)
  have first: "reg_inv (switchTab b2 (tab_id (tabs b2 ! 0)))" if "length (tabs b2) > 0"
    using bar by (rule switchTab_inv) (use that in \<open>cases "tabs b2"; simp\<close>)
  have wel: "reg_inv (showWelcomeScreen b2)"
    using inv2 by (rule reg_inv_frame) (simp_all add: reg_frame)
  have "reg_inv (switchTab b2 a)" if "activeTabId (removeTab b i) = Some a" for a
    using bar by (rule switchTab_inv) (use act that in \<open>simp add: active_ok_def b2_def del: set_map\<close>)
  with first wel False show ?thesis
    by (simp add: closeTab_def Let_def b2_def [symmetric] split: option.splits)
qed

lemma step_reg_inv:
  assumes "reg_inv b"
  shows "reg_inv (step pu b e)"
proof (cases e)
  case (DOMContentLoaded n n')
  with assms show ?thesis by (simp add: step_def initBrowser_def addTab_ui_inv)
next
  case (ClickAddTab n n')
  with assms show ?thesis by (simp add: step_def addTab_ui_inv)
next
  case (ClickTab k)
  show ?thesis
  proof (cases "k < length (tabBar b)")
    case True
    have "el_id (tabBar b ! k) \<in> set (map el_id (tabBar b))"
      using True by (metis length_map nth_map nth_mem)
    then have "el_id (tabBar b ! k) \<in> set (map tab_id (tabs b))"
      using assms by (simp add: reg_inv_def bar_ok_def del: set_map)
    moreover have "bar_ok b"
      using assms by (simp add: reg_inv_def)
    ultimately have "reg_inv (switchTab b (el_id (tabBar b ! k)))"
      by (intro switchTab_inv)
    with ClickTab True show ?thesis by (simp add: step_def)
  next
    case False
    with ClickTab assms show ?thesis by (simp add: step_def)
  qed
next
  case (ClickCloseTab k)
  with assms show ?thesis by (simp add: step_def closeTab_inv)
next
  case (TypeAddress v)
  have "reg_inv (b\<lparr>addressBarValue := v\<rparr>)"
    using assms by (rule reg_inv_frame) simp_all
  with TypeAddress show ?thesis by (simp add: step_def)
next
  case PressEnter
  have "reg_inv (navigateToUrl pu b (addressBarValue b))"
    using assms by (rule reg_inv_frame) (simp_all add: reg_frame)
  with PressEnter show ?thesis by (simp add: step_def)
next
  case (QuickLink u)
  have "reg_inv (navigateToUrl pu b u)"
    using assms by (rule reg_inv_frame) (simp_all add: reg_frame)
  with QuickLink show ?thesis by (simp add: step_def)
next
  case ClickBack
  have "reg_inv (goBack_ui b)"
    using assms by (rule reg_inv_frame) (simp_all add: reg_frame)
  with ClickBack show ?thesis by (simp add: step_def)
next
  case ClickForward
  have "reg_inv (goForward_ui b)"
    using assms by (rule reg_inv_frame) (simp_all add: reg_frame)
  with ClickForward show ?thesis by (simp add: step_def)
next
  case ClickReload
  have "reg_inv (reload b)"
    using assms by (rule reg_inv_frame) (simp_all add: reg_frame)
  with ClickReload show ?thesis by (simp add: step_def)
next
  case ClickRetry
  have "reg_inv (retry pu b)"
    using assms by (rule reg_inv_frame) (simp_all add: reg_frame)
  with ClickRetry show ?thesis by (simp add: step_def)
next
  case (IframeLoad r)
  have "reg_inv (onLoad b r)"
    using assms by (rule reg_inv_frame) (simp_all add: reg_frame)
  with IframeLoad assms show ?thesis by (simp add: step_def)
next
  case (IframeError r)
  have "reg_inv (onError b r)"
    using assms by (rule reg_inv_frame) (simp_all add: reg_frame)
  with IframeError assms show ?thesis by (simp add: step_def)
next
  case (TimerFires tid doc w)
  have "reg_inv (runCallback pu (b\<lparr>timers := ts\<rparr>) cb doc w)" for ts cb
    using assms by (rule reg_inv_frame) (simp_all add: reg_frame)
  with TimerFires assms show ?thesis
    by (simp add: step_def split: option.splits)
qed

lemma reachable_reg_inv: "reachable pu b \<Longrightarrow> reg_inv b"
proof (induction rule: reachable.induct)
  case reach_start
  show ?case by (simp add: reg_inv_def active_ok_def bar_ok_def newBrowserState_def)
next
  case (reach_step b e)
  then show ?case by (simp add: step_reg_inv)
qed

subsection \<open>Timers\<close>

lemma isTimeoutOf_ref: "isTimeoutOf r cb \<Longrightarrow> cb_ref cb = r"
  by (cases cb) auto

lemma tinv_clear:
  assumes "tinv ts n ls rs"
  shows "tinv (filter (\<lambda>x. fst x \<noteq> tid) ts) n ls rs"
  using assms unfolding tinv_def by (auto simp: distinct_map_filter)

lemma tinv_refs:
  assumes "tinv ts n ls rs" and "set rs' \<subseteq> set rs"
  shows "tinv ts n ls rs'"
  using assms unfolding tinv_def by blast

lemma tinv_set_other:
  assumes "tinv ts n ls rs" and "cb_ref cb < length ls" and "\<And>r. \<not> isTimeoutOf r cb"
  shows "tinv (ts @ [(n, d, cb)]) (Suc n) ls rs"
  using assms unfolding tinv_def
  by (auto simp: less_Suc_eq)

lemma tinv_cancel:
  assumes "tinv ts n ls rs" and "r < length ls" and "ls ! r = Some tid"
  shows "tinv (filter (\<lambda>x. fst x \<noteq> tid) ts) n (ls[r := None]) rs"
proof -
  have a: "fst x < n \<and> cb_ref (snd (snd x)) < length ls \<and>
      (\<forall>q. isTimeoutOf q (snd (snd x)) \<longrightarrow> ls ! q = Some (fst x))" if "x \<in> set ts" for x
    using assms(1) that unfolding tinv_def by blast
  have d: "distinct (map fst ts)"
    using assms(1) unfolding tinv_def by blast
  have c: "i < n \<and> (\<forall>x\<in>set ts. fst x = i \<longrightarrow> isTimeoutOf q (snd (snd x)))"
    if "q < length ls" "ls ! q = Some i" for q i
    using assms(1) that unfolding tinv_def by blast
  have e: "q < length ls" if "Some q \<in> set rs" for q
    using assms(1) that unfolding tinv_def by blast
  show ?thesis
    unfolding tinv_def
  proof (intro conjI ballI allI impI)
    fix x assume x: "x \<in> set (filter (\<lambda>x. fst x \<noteq> tid) ts)"
    then show "fst x < n" using a by simp
    from x show "cb_ref (snd (snd x)) < length (ls[r := None])" using a by simp
  next
    fix x q assume x: "x \<in> set (filter (\<lambda>x. fst x \<noteq> tid) ts)" and q: "isTimeoutOf q (snd (snd x))"
    from x have xs: "x \<in> set ts" and ne: "fst x \<noteq> tid" by simp_all
    from a [OF xs] q have l: "ls ! q = Some (fst x)" by blast
    with ne assms(3) have "q \<noteq> r" by auto
    with l show "ls[r := None] ! q = Some (fst x)" by simp
  next
    show "distinct (map fst (filter (\<lambda>x. fst x \<noteq> tid) ts))"
      using d by (simp add: distinct_map_filter)
  next
    fix q i assume q: "q < length (ls[r := None])" and l: "ls[r := None] ! q = Some i"
    then have qr: "q \<noteq> r" using assms(2) by (cases "q = r") simp_all
    with q l have "q < length ls" "ls ! q = Some i" by simp_all
    from c [OF this] show "i < n" by blast
  next
    fix q i x assume q: "q < length (ls[r := None])" and l: "ls[r := None] ! q = Some i"
      and x: "x \<in> set (filter (\<lambda>x. fst x \<noteq> tid) ts)" and f: "fst x = i"
    then have qr: "q \<noteq> r" using assms(2) by (cases "q = r") simp_all
    with q l have "q < length ls" "ls ! q = Some i" by simp_all
    from c [OF this] x f show "isTimeoutOf q (snd (snd x))" by simp
  next
    fix q assume "Some q \<in> set rs"
    then show "q < length (ls[r := None])" using e by simp
  qed
qed

lemma tinv_start:
  assumes "tinv ts n ls rs" and "r < length ls"
    and "\<forall>x\<in>set ts. \<not> isTimeoutOf r (snd (snd x))"
  shows "tinv (ts @ [(n, d, CbTimeout r u)]) (Suc n) (ls[r := Some n]) rs"
proof -
  have a: "fst x < n \<and> cb_ref (snd (snd x)) < length ls \<and>
      (\<forall>q. isTimeoutOf q (snd (snd x)) \<longrightarrow> ls ! q = Some (fst x))" if "x \<in> set ts" for x
    using assms(1) that unfolding tinv_def by blast
  have d: "distinct (map fst ts)"
    using assms(1) unfolding tinv_def by blast
  have c: "i < n \<and> (\<forall>x\<in>set ts. fst x = i \<longrightarrow> isTimeoutOf q (snd (snd x)))"
    if "q < length ls" "ls ! q = Some i" for q i
    using assms(1) that unfolding tinv_def by blast
  have e: "q < length ls" if "Some q \<in> set rs" for q
    using assms(1) that unfolding tinv_def by blast
  show ?thesis
    unfolding tinv_def
  proof (intro conjI ballI allI impI)
    fix x assume x: "x \<in> set (ts @ [(n, d, CbTimeout r u)])"
    then consider "x \<in> set ts" | "x = (n, d, CbTimeout r u)" by auto
    then show "fst x < Suc n"
    proof cases
      case 1
      with a [OF 1] show ?thesis by simp
    next
      case 2
      then show ?thesis by simp
    qed
    from x consider "x \<in> set ts" | "x = (n, d, CbTimeout r u)" by auto
    then show "cb_ref (snd (snd x)) < length (ls[r := Some n])"
    proof cases
      case 1
      with a [OF 1] show ?thesis by simp
    next
      case 2
      with assms(2) show ?thesis by simp
    qed
  next
    fix x q assume x: "x \<in> set (ts @ [(n, d, CbTimeout r u)])" and q: "isTimeoutOf q (snd (snd x))"
    show "ls[r := Some n] ! q = Some (fst x)"
    proof (cases "x \<in> set ts")
      case True
      with assms(3) q have "q \<noteq> r" by blast
      with a [OF True] q show ?thesis by simp
    next
      case False
      with x have "x = (n, d, CbTimeout r u)" by simp
      with q assms(2) show ?thesis by simp
    qed
  next
    have "n \<notin> fst ` set ts" using a by fastforce
    with d show "distinct (map fst (ts @ [(n, d, CbTimeout r u)]))" by simp
  next
    fix q i assume q: "q < length (ls[r := Some n])" and l: "ls[r := Some n] ! q = Some i"
    show "i < Suc n"
    proof (cases "q = r")
      case True
      with q l show ?thesis by simp
    next
      case False
      with q l have "q < length ls" "ls ! q = Some i" by simp_all
      from c [OF this] show ?thesis by simp
    qed
  next
    fix q i x assume q: "q < length (ls[r := Some n])" and l: "ls[r := Some n] ! q = Some i"
      and x: "x \<in> set (ts @ [(n, d, CbTimeout r u)])" and f: "fst x = i"
    show "isTimeoutOf q (snd (snd x))"
    proof (cases "q = r")
      case True
      with q l have "i = n" by simp
      with f x a have "x = (n, d, CbTimeout r u)" by fastforce
      with True show ?thesis by simp
    next
      case False
      with q l have ql: "q < length ls" "ls ! q = Some i" by simp_all
      from c [OF this] have "i < n" by blast
      with f x have "x \<in> set ts" by auto
      with c [OF ql] f show ?thesis by blast
    qed
  next
    fix q assume "Some q \<in> set rs"
    then show "q < length (ls[r := Some n])" using e by simp
  qed
qed

lemma tinv_new_iframe:
  assumes "tinv ts n ls rs" and "set rs' \<subseteq> insert (Some (length ls)) (set rs)"
  shows "tinv ts n (ls @ [None]) rs'"
proof -
  have a: "fst x < n \<and> cb_ref (snd (snd x)) < length ls \<and>
      (\<forall>q. isTimeoutOf q (snd (snd x)) \<longrightarrow> ls ! q = Some (fst x))" if "x \<in> set ts" for x
    using assms(1) that unfolding tinv_def by blast
  have d: "distinct (map fst ts)"
    using assms(1) unfolding tinv_def by blast
  have c: "i < n \<and> (\<forall>x\<in>set ts. fst x = i \<longrightarrow> isTimeoutOf q (snd (snd x)))"
    if "q < length ls" "ls ! q = Some i" for q i
    using assms(1) that unfolding tinv_def by blast
  have e: "q < length ls" if "Some q \<in> set rs" for q
    using assms(1) that unfolding tinv_def by blast
  show ?thesis
    unfolding tinv_def
  proof (intro conjI ballI allI impI)
    fix x assume x: "x \<in> set ts"
    then show "fst x < n" using a by simp
    from x show "cb_ref (snd (snd x)) < length (ls @ [None])" using a by (simp add: less_Suc_eq)
  next
    fix x q assume x: "x \<in> set ts" and q: "isTimeoutOf q (snd (snd x))"
    then have "cb_ref (snd (snd x)) = q" by (simp add: isTimeoutOf_ref)
    with a [OF x] have "q < length ls" by simp
    with a [OF x] q show "(ls @ [None]) ! q = Some (fst x)" by (simp add: nth_append)
  next
    show "distinct (map fst ts)" by (rule d)
  next
    fix q i assume q: "q < length (ls @ [None])" and l: "(ls @ [None]) ! q = Some i"
    then have "q < length ls" "ls ! q = Some i"
      by (auto simp: nth_append less_Suc_eq split: if_splits)
    from c [OF this] show "i < n" by blast
  next
    fix q i x assume q: "q < length (ls @ [None])" and l: "(ls @ [None]) ! q = Some i"
      and x: "x \<in> set ts" and f: "fst x = i"
    then have "q < length ls" "ls ! q = Some i"
      by (auto simp: nth_append less_Suc_eq split: if_splits)
    from c [OF this] x f show "isTimeoutOf q (snd (snd x))" by blast
  next
    fix q assume "Some q \<in> set rs'"
    with assms(2) have "q = length ls \<or> Some q \<in> set rs" by auto
    then show "q < length (ls @ [None])" using e by (auto simp: less_Suc_eq)
  qed
qed

named_theorems tm_frame

lemma tinv_refs_Some:
  assumes "tinv ts n ls rs" and "\<And>r. Some r \<in> set rs' \<Longrightarrow> Some r \<in> set rs"
  shows "tinv ts n ls rs'"
  using assms unfolding tinv_def by blast

lemma map_iframe_update_tab:
  "(\<And>t. iframe (f t) = iframe t) \<Longrightarrow> map iframe (update_tab i f ts) = map iframe ts"
  by (induction ts) auto

lemma map_loadTimeout_update:
  "(\<And>x. loadTimeout (f x) = loadTimeout x) \<Longrightarrow>
   map loadTimeout (fs[r := f (fs ! r)]) = map loadTimeout fs"
  by (induction fs arbitrary: r) (auto split: nat.splits)

lemma timer_inv_same:
  assumes "timers b' = timers b" and "nextTimer b' = nextTimer b"
    and "map loadTimeout (iframes b') = map loadTimeout (iframes b)"
    and "map iframe (tabs b') = map iframe (tabs b)"
  shows "timer_inv b' = timer_inv b"
  using assms by (simp add: timer_inv_def)

lemma simple_tm [tm_frame]:
  "timer_inv (showLoading b) = timer_inv b"
  "timer_inv (hideLoading b) = timer_inv b"
  "timer_inv (showWelcomeScreen b) = timer_inv b"
  "timer_inv (hideWelcomeScreen b) = timer_inv b"
  "timer_inv (showError b m u) = timer_inv b"
  "timer_inv (hideError b) = timer_inv b"
  "timer_inv (updateTabBar b) = timer_inv b"
  "timer_inv (updateNavButtons b) = timer_inv b"
  "timer_inv (updateTabUrl b i u) = timer_inv b"
  "timer_inv (updateTabTitle b i u) = timer_inv b"
  "timer_inv (addToHistory b i u) = timer_inv b"
  "timer_inv (fst (goBack b i)) = timer_inv b"
  "timer_inv (fst (goForward b i)) = timer_inv b"
  "timer_inv (b\<lparr>addressBarValue := v\<rparr>) = timer_inv b"
  "timer_inv (b\<lparr>activeTabId := a\<rparr>) = timer_inv b"
  "timer_inv (b\<lparr>tabBar := es\<rparr>) = timer_inv b"
  by (rule timer_inv_same;
      simp add: showLoading_def hideLoading_def showWelcomeScreen_def hideWelcomeScreen_def
        showError_def hideError_def updateTabBar_def updateNavButtons_def updateTabUrl_def
        updateTabTitle_def addToHistory_def goBack_def goForward_def push_history_def Let_def
        map_iframe_update_tab split: option.splits)+

lemma simple_len [tm_frame]:
  "iframes (showLoading b) = iframes b"
  "iframes (hideLoading b) = iframes b"
  "iframes (showWelcomeScreen b) = iframes b"
  "iframes (hideWelcomeScreen b) = iframes b"
  "iframes (showError b m u) = iframes b"
  "iframes (hideError b) = iframes b"
  "iframes (updateTabBar b) = iframes b"
  "iframes (updateNavButtons b) = iframes b"
  "iframes (updateTabUrl b i u) = iframes b"
  "iframes (updateTabTitle b i u) = iframes b"
  "iframes (addToHistory b i u) = iframes b"
  "iframes (fst (goBack b i)) = iframes b"
  "iframes (fst (goForward b i)) = iframes b"
  "iframes (clearTimeout b k) = iframes b"
  "iframes (fst (setTimeout b cb d)) = iframes b"
  "length (iframes (update_iframe r g b)) = length (iframes b)"
  by (simp_all add: showLoading_def hideLoading_def showWelcomeScreen_def hideWelcomeScreen_def
        showError_def hideError_def updateTabBar_def updateNavButtons_def updateTabUrl_def
        updateTabTitle_def addToHistory_def goBack_def goForward_def clearTimeout_def
        setTimeout_def update_iframe_def split: option.splits)

lemma update_iframe_tm:
  assumes "\<And>x. loadTimeout (g x) = loadTimeout x"
  shows "timer_inv (update_iframe r g b) = timer_inv b"
  by (rule timer_inv_same) (simp_all add: update_iframe_def map_loadTimeout_update assms)

lemma clearTimeout_tm: "timer_inv b \<Longrightarrow> timer_inv (clearTimeout b tid)"
  by (simp add: timer_inv_def clearTimeout_def tinv_clear)

lemma setTimeout_tm:
  assumes "timer_inv b" and "cb_ref cb < length (iframes b)" and "\<And>r. \<not> isTimeoutOf r cb"
  shows "timer_inv (fst (setTimeout b cb d))"
  using assms by (simp add: timer_inv_def setTimeout_def tinv_set_other)

lemma cancelLoadTimeout_tm:
  assumes "timer_inv b" and "r < length (iframes b)"
  shows "timer_inv (cancelLoadTimeout b r)"
proof (cases "loadTimeout (iframes b ! r)")
  case None
  with assms show ?thesis by (simp add: cancelLoadTimeout_def)
next
  case (Some tid)
  have "tinv (filter (\<lambda>x. fst x \<noteq> tid) (timers b)) (nextTimer b)
          ((map loadTimeout (iframes b))[r := None]) (map iframe (tabs b))"
    using assms Some by (intro tinv_cancel) (simp_all add: timer_inv_def)
  then show ?thesis
    using Some by (simp add: cancelLoadTimeout_def timer_inv_def update_iframe_def
      clearTimeout_def map_update)
qed

lemma cancelLoadTimeout_len [tm_frame]:
  "length (iframes (cancelLoadTimeout b r)) = length (iframes b)"
  by (simp add: cancelLoadTimeout_def update_iframe_def clearTimeout_def split: option.splits)

lemma onLoad_tm:
  assumes "timer_inv b" and "r < length (iframes b)"
  shows "timer_inv (onLoad b r)"
proof -
  define b1 where "b1 = update_iframe r (\<lambda>f. f\<lparr>hasLoaded := True\<rparr>) b"
  have 1: "timer_inv b1" "r < length (iframes b1)"
    using assms by (simp_all add: b1_def update_iframe_tm tm_frame)
  then have 2: "timer_inv (hideLoading (cancelLoadTimeout b1 r))"
    "r < length (iframes (hideLoading (cancelLoadTimeout b1 r)))"
    by (simp_all add: tm_frame cancelLoadTimeout_tm)
  have "timer_inv (fst (setTimeout (hideLoading (cancelLoadTimeout b1 r)) (CbSettle r) 500))"
    using 2 by (intro setTimeout_tm) simp_all
  then show ?thesis by (simp add: onLoad_def Let_def b1_def)
qed

lemma onError_tm:
  assumes "timer_inv b" and "r < length (iframes b)"
  shows "timer_inv (onError b r)"
proof -
  define b1 where "b1 = update_iframe r (\<lambda>f. f\<lparr>hasLoaded := True\<rparr>) b"
  have 1: "timer_inv b1" "r < length (iframes b1)"
    using assms by (simp_all add: b1_def update_iframe_tm tm_frame)
  then have "timer_inv (hideLoading (cancelLoadTimeout b1 r))"
    by (simp add: tm_frame cancelLoadTimeout_tm)
  then show ?thesis by (simp add: onError_def Let_def b1_def tm_frame)
qed

lemma no_timeout_after_clear:
  assumes "tinv ts n ls rs" and "r < length ls"
  shows "\<forall>x\<in>set (case ls ! r of None \<Rightarrow> ts | Some tid \<Rightarrow> filter (\<lambda>x. fst x \<noteq> tid) ts).
           \<not> isTimeoutOf r (snd (snd x))"
proof (cases "ls ! r")
  case None
  have "\<not> isTimeoutOf r (snd (snd x))" if "x \<in> set ts" for x
    using assms(1) that None unfolding tinv_def by fastforce
  with None show ?thesis by simp
next
  case (Some tid)
  have "\<not> isTimeoutOf r (snd (snd x))" if "x \<in> set ts" "fst x \<noteq> tid" for x
    using assms(1) that Some unfolding tinv_def by fastforce
  with Some show ?thesis by simp
qed

lemma startLoadTimeout_timers:
  "timers (startLoadTimeout b r u) =
     (case loadTimeout (iframes b ! r) of None \<Rightarrow> timers b
      | Some tid \<Rightarrow> filter (\<lambda>x. fst x \<noteq> tid) (timers b)) @ [(nextTimer b, 10000, CbTimeout r u)]"
  "nextTimer (startLoadTimeout b r u) = Suc (nextTimer b)"
  "iframes (startLoadTimeout b r u) = (iframes b)[r := (iframes b ! r)\<lparr>loadTimeout := Some (nextTimer b)\<rparr>]"
  "tabs (startLoadTimeout b r u) = tabs b"
  by (simp_all add: startLoadTimeout_def Let_def setTimeout_def clearTimeout_def update_iframe_def
    split: option.splits)

lemma startLoadTimeout_tm:
  assumes "timer_inv b" and "r < length (iframes b)"
  shows "timer_inv (startLoadTimeout b r u)"
proof -
  define ts where "ts = (case loadTimeout (iframes b ! r) of None \<Rightarrow> timers b
      | Some tid \<Rightarrow> filter (\<lambda>x. fst x \<noteq> tid) (timers b))"
  define ls where "ls = map loadTimeout (iframes b)"
  have t: "tinv (timers b) (nextTimer b) ls (map iframe (tabs b))"
    using assms(1) by (simp add: timer_inv_def ls_def)
  have r: "r < length ls" using assms(2) by (simp add: ls_def)
  have lr: "ls ! r = loadTimeout (iframes b ! r)" using assms(2) by (simp add: ls_def)
  have c: "tinv ts (nextTimer b) ls (map iframe (tabs b))"
    using t by (cases "loadTimeout (iframes b ! r)") (simp_all add: ts_def tinv_clear)
  have n: "\<forall>x\<in>set ts. \<not> isTimeoutOf r (snd (snd x))"
    using no_timeout_after_clear [OF t r] by (simp add: ts_def lr)
  have "tinv (ts @ [(nextTimer b, 10000, CbTimeout r u)]) (Suc (nextTimer b))
      (ls[r := Some (nextTimer b)]) (map iframe (tabs b))"
    using c r n by (rule tinv_start)
  then show ?thesis
    by (simp add: timer_inv_def startLoadTimeout_timers ts_def ls_def map_update)
qed

lemma startLoadTimeout_len [tm_frame]:
  "length (iframes (startLoadTimeout b r u)) = length (iframes b)"
  by (simp add: startLoadTimeout_timers)

lemma createTabIframe_tm:
  assumes "timer_inv b"
  shows "timer_inv (fst (createTabIframe b i))"
proof -
  define k where "k = length (map loadTimeout (iframes b))"
  have "set (map iframe (update_tab i (\<lambda>t. t\<lparr>iframe := Some k\<rparr>) ts)) \<subseteq> insert (Some k) (set (map iframe ts))"
    for ts
    by (induction ts) auto
  then have sub: "set (map iframe (update_tab i (\<lambda>t. t\<lparr>iframe := Some k\<rparr>) (tabs b)))
      \<subseteq> insert (Some (length (map loadTimeout (iframes b)))) (set (map iframe (tabs b)))"
    unfolding k_def .
  have t: "tinv (timers b) (nextTimer b) (map loadTimeout (iframes b)) (map iframe (tabs b))"
    using assms by (simp add: timer_inv_def)
  have "tinv (timers b) (nextTimer b) (map loadTimeout (iframes b) @ [None])
      (map iframe (update_tab i (\<lambda>t. t\<lparr>iframe := Some k\<rparr>) (tabs b)))"
    using t sub by (rule tinv_new_iframe)
  then show ?thesis
    by (simp add: timer_inv_def createTabIframe_def k_def)
qed

lemma createTabIframe_len:
  "length (iframes (fst (createTabIframe b i))) = Suc (length (iframes b))"
  "snd (createTabIframe b i) = length (iframes b)"
  by (simp_all add: createTabIframe_def)

lemma find_tab_mem: "find_tab ts i = Some t \<Longrightarrow> t \<in> set ts"
  by (induction ts) (auto simp: find_tab_def split: if_splits)

lemma timer_inv_ref:
  assumes "timer_inv b" and "t \<in> set (tabs b)" and "iframe t = Some r"
  shows "r < length (iframes b)"
proof -
  from assms(2,3) have "Some r \<in> set (map iframe (tabs b))" by force
  with assms(1) show ?thesis by (simp add: timer_inv_def tinv_def del: set_map)
qed

lemma timer_inv_active_ref:
  assumes "timer_inv b" and "getActiveTab b = Some t" and "iframe t = Some r"
  shows "r < length (iframes b)"
proof -
  from assms(2) have "t \<in> set (tabs b)"
    by (auto simp: getActiveTab_def split: option.splits dest: find_tab_mem)
  with assms(1,3) show ?thesis by (simp add: timer_inv_ref)
qed

lemma timer_inv_cb_ref:
  assumes "timer_inv b" and "(i, d, cb) \<in> set (timers b)"
  shows "cb_ref cb < length (iframes b)"
  using assms by (fastforce simp: timer_inv_def tinv_def)

lemma settleWindow_tm:
  assumes "timer_inv b" and "r < length (iframes b)"
  shows "timer_inv (settleWindow pu b r w)"
proof (cases "pu (src (iframes b ! r))")
  case None
  with assms show ?thesis by (simp add: settleWindow_def tm_frame)
next
  case (Some host)
  have "timer_inv (fst (setTimeout b (CbRecheck r host) 2000))"
    using assms by (intro setTimeout_tm) simp_all
  with Some assms show ?thesis by (simp add: settleWindow_def tm_frame)
qed

lemma settleCheck_tm:
  assumes "timer_inv b" and "r < length (iframes b)"
  shows "timer_inv (settleCheck pu b r doc w)"
proof -
  have "timer_inv (settleWindow pu (hideError b) r w)"
    using assms by (intro settleWindow_tm) (simp_all add: tm_frame)
  with assms show ?thesis
    by (simp add: settleCheck_def Let_def tm_frame settleWindow_tm
      split: doc_probe.splits option.splits)
qed

lemma finalCheck_tm: "timer_inv b \<Longrightarrow> timer_inv (finalCheck b r h doc)"
  by (simp add: finalCheck_def tm_frame split: doc_probe.splits)

lemma loadTimedOut_tm: "timer_inv b \<Longrightarrow> timer_inv (loadTimedOut pu b r u)"
  by (simp add: loadTimedOut_def tm_frame split: option.splits)

lemma runCallback_tm:
  assumes "timer_inv b" and "cb_ref cb < length (iframes b)"
  shows "timer_inv (runCallback pu b cb doc w)"
  using assms
  by (cases cb) (simp_all add: runCallback_def settleCheck_tm finalCheck_tm loadTimedOut_tm)

lemma hide_iframes_tm:
  "timer_inv (b\<lparr>activeTabId := a,
      iframes := map (\<lambda>f. if attached f then f\<lparr>display := DNone\<rparr> else f) (iframes b),
      tabBar := es\<rparr>) = timer_inv b"
  by (rule timer_inv_same) (simp_all add: o_def if_distrib cong: if_cong)

lemma switchTab_tm:
  assumes "timer_inv b"
  shows "timer_inv (switchTab b i)"
proof -
  define b1 where "b1 = b\<lparr>activeTabId := Some i,
      iframes := map (\<lambda>f. if attached f then f\<lparr>display := DNone\<rparr> else f) (iframes b),
      tabBar := map (\<lambda>e. e\<lparr>el_active := (el_id e = i)\<rparr>) (tabBar b)\<rparr>"
  have 1: "timer_inv b1"
    using assms by (simp add: b1_def hide_iframes_tm)
  show ?thesis
  proof (cases "getActiveTab b1")
    case None
    with 1 show ?thesis by (simp add: switchTab_def Let_def b1_def [symmetric])
  next
    case (Some t)
    define b2 where "b2 = b1\<lparr>addressBarValue := url t\<rparr>"
    have 2: "timer_inv b2" using 1 by (simp add: b2_def tm_frame)
    have 3: "timer_inv (hideWelcomeScreen (update_iframe r (\<lambda>f. f\<lparr>display := DBlock\<rparr>) b2))" for r
      using 2 by (simp add: tm_frame update_iframe_tm)
    have 4: "timer_inv (hideWelcomeScreen (update_iframe r (\<lambda>f. f\<lparr>src := url t, display := DBlock\<rparr>)
        (fst (createTabIframe b2 (tab_id t)))))" for r
      using 2 by (simp add: tm_frame update_iframe_tm createTabIframe_tm)
    have 5: "timer_inv (showWelcomeScreen b2)"
      using 2 by (simp add: tm_frame)
    from 3 4 5 Some show ?thesis
      by (simp add: switchTab_def Let_def b1_def [symmetric] b2_def [symmetric] case_prod_beta
        tm_frame split: option.splits)
  qed
qed

lemma navigateToUrl_tm:
  assumes "timer_inv b"
  shows "timer_inv (navigateToUrl pu b u)"
proof (cases "getActiveTab b")
  case None
  with assms show ?thesis by (simp add: navigateToUrl_def)
next
  case (Some t)
  show ?thesis
  proof (cases "sanitizeUrl pu u")
    case (Inl e)
    with Some assms show ?thesis by (simp add: navigateToUrl_def)
  next
    case (Inr s)
    define b4 where "b4 = updateNavButtons (updateTabBar (updateTabTitle
        (addToHistory (updateTabUrl b (tab_id t) s) (tab_id t) s) (tab_id t)
        (case pu s of Some host \<Rightarrow> host | None \<Rightarrow> js ''Navigating...''))\<lparr>addressBarValue := s\<rparr>)"
    define p where "p = (case iframe t of Some r \<Rightarrow> (b4, r) | None \<Rightarrow> createTabIframe b4 (tab_id t))"
    define b7 where "b7 = update_iframe (snd p) (\<lambda>f. f\<lparr>display := DBlock, hasLoaded_prop := Some False\<rparr>)
        (hideWelcomeScreen (hideError (showLoading (fst p))))"
    have 4: "timer_inv b4" "iframes b4 = iframes b"
      using assms by (simp_all add: b4_def tm_frame)
    have 5: "timer_inv (fst p) \<and> snd p < length (iframes (fst p))"
    proof (cases "iframe t")
      case None
      with 4 show ?thesis by (simp add: p_def createTabIframe_tm createTabIframe_len)
    next
      case (Some r)
      from timer_inv_active_ref [OF assms \<open>getActiveTab b = Some t\<close> Some] 4 Some
      show ?thesis by (simp add: p_def)
    qed
    then have 7: "timer_inv b7" "snd p < length (iframes b7)"
      by (simp_all add: b7_def tm_frame update_iframe_tm)
    then have "timer_inv (update_iframe (snd p) (\<lambda>f. f\<lparr>src := s\<rparr>) (startLoadTimeout b7 (snd p) s))"
      by (simp add: update_iframe_tm startLoadTimeout_tm)
    moreover have "navigateToUrl pu b u =
        update_iframe (snd p) (\<lambda>f. f\<lparr>src := s\<rparr>) (startLoadTimeout b7 (snd p) s)"
      unfolding b7_def p_def b4_def using Some Inr
      by (simp add: navigateToUrl_def Let_def case_prod_beta)
    ultimately show ?thesis by simp
  qed
qed

lemma map_loadTimeout_detach: "map loadTimeout (detach r fs) = map loadTimeout fs"
  by (simp add: detach_def map_update list_update_same_conv split: option.splits)

lemma removeTab_tm:
  assumes "timer_inv b"
  shows "timer_inv (removeTab b i)"
proof (cases "findIndex (\<lambda>t. tab_id t = i) (tabs b)")
  case None
  with assms show ?thesis by (simp add: removeTab_def)
next
  case (Some k)
  have "tinv (timers b) (nextTimer b) (map loadTimeout (iframes b))
      (map iframe (take k (tabs b) @ drop (Suc k) (tabs b)))"
  proof (rule tinv_refs_Some)
    show "tinv (timers b) (nextTimer b) (map loadTimeout (iframes b)) (map iframe (tabs b))"
      using assms by (simp add: timer_inv_def)
  next
    fix r assume "Some r \<in> set (map iframe (take k (tabs b) @ drop (Suc k) (tabs b)))"
    then show "Some r \<in> set (map iframe (tabs b))"
      by (auto dest: in_set_takeD in_set_dropD)
  qed
  with Some show ?thesis
    by (simp add: removeTab_def Let_def timer_inv_def map_loadTimeout_detach)
qed

lemma closeTab_tm:
  assumes "timer_inv b"
  shows "timer_inv (closeTab b i)"
proof -
  define b2 where "b2 = removeTab b i\<lparr>tabBar := remove_element i (tabBar (removeTab b i))\<rparr>"
  have "timer_inv b2"
    using assms by (simp add: b2_def tm_frame removeTab_tm)
  then have "timer_inv (switchTab b2 a)" "timer_inv (showWelcomeScreen b2)" for a
    by (simp_all add: switchTab_tm tm_frame)
  with assms show ?thesis
    by (simp add: closeTab_def Let_def b2_def [symmetric] split: option.splits)
qed

lemma addTab_tm:
  assumes "timer_inv b"
  shows "timer_inv (fst (addTab b u now now'))"
proof -
  have "tinv (timers b) (nextTimer b) (map loadTimeout (iframes b))
      (map iframe (tabs b @ [new_tab u now now']))"
  proof (rule tinv_refs_Some)
    show "tinv (timers b) (nextTimer b) (map loadTimeout (iframes b)) (map iframe (tabs b))"
      using assms by (simp add: timer_inv_def)
  next
    fix r assume "Some r \<in> set (map iframe (tabs b @ [new_tab u now now']))"
    then show "Some r \<in> set (map iframe (tabs b))"
      by (auto simp: new_tab_def)
  qed
  with assms show ?thesis by (simp add: addTab_def timer_inv_def)
qed

lemma addTab_ui_tm:
  assumes "timer_inv b"
  shows "timer_inv (addTab_ui pu b u now now')"
proof (cases "if u = [] then Inr [] else sanitizeUrl pu u")
  case (Inl e)
  with assms show ?thesis by (simp add: addTab_ui_def)
next
  case (Inr s)
  show ?thesis
  proof (cases "addTab b s now now'")
    case (Pair b1 topt)
    have 1: "timer_inv b1"
      using addTab_tm [OF assms, of s now now'] Pair by simp
    show ?thesis
    proof (cases topt)
      case None
      with Inr Pair 1 show ?thesis by (simp add: addTab_ui_def)
    next
      case (Some t)
      define b3 where "b3 = switchTab (b1\<lparr>tabBar := tabBar b1 @ [createTabElement t],
          activeTabId := Some (tab_id t)\<rparr>) (tab_id t)"
      have "timer_inv b3"
        using 1 by (simp add: b3_def switchTab_tm tm_frame)
      then have "timer_inv (navigateToUrl pu b3 s)"
        by (rule navigateToUrl_tm)
      with \<open>timer_inv b3\<close> Inr Pair Some show ?thesis
        by (simp add: addTab_ui_def Let_def b3_def [symmetric])
    qed
  qed
qed

lemma showUrl_tm:
  assumes "timer_inv b"
  shows "timer_inv (showUrl b t r res)"
  using assms by (cases res) (simp_all add: showUrl_def Let_def tm_frame update_iframe_tm)

lemma goBack_ui_tm: "timer_inv b \<Longrightarrow> timer_inv (goBack_ui b)"
  by (simp add: goBack_ui_def case_prod_beta showUrl_tm tm_frame split: option.splits)

lemma goForward_ui_tm: "timer_inv b \<Longrightarrow> timer_inv (goForward_ui b)"
  by (simp add: goForward_ui_def case_prod_beta showUrl_tm tm_frame split: option.splits)

lemma reload_tm: "timer_inv b \<Longrightarrow> timer_inv (reload b)"
  by (simp add: reload_def tm_frame split: option.splits)

lemma retry_tm: "timer_inv b \<Longrightarrow> timer_inv (retry pu b)"
  by (simp add: retry_def Let_def navigateToUrl_tm)

lemma fire_tm:
  assumes "timer_inv b" and "List.find (\<lambda>x. fst x = tid) (timers b) = Some (i, d, cb)"
  shows "timer_inv (runCallback pu (b\<lparr>timers := filter (\<lambda>x. fst x \<noteq> tid) (timers b)\<rparr>) cb doc w)"
proof -
  from assms(2) have "(i, d, cb) \<in> set (timers b)"
    by (auto simp: find_Some_iff)
  with assms(1) have r: "cb_ref cb < length (iframes b)"
    by (rule timer_inv_cb_ref)
  have "timer_inv (b\<lparr>timers := filter (\<lambda>x. fst x \<noteq> tid) (timers b)\<rparr>)"
    using assms(1) by (simp add: timer_inv_def tinv_clear)
  then show ?thesis
    using r by (intro runCallback_tm) simp_all
qed

lemma step_timer_inv:
  assumes "timer_inv b"
  shows "timer_inv (step pu b e)"
proof (cases e)
  case (TimerFires tid doc w)
  show ?thesis
  proof (cases "List.find (\<lambda>x. fst x = tid) (timers b)")
    case None
    with TimerFires assms show ?thesis by (simp add: step_def)
  next
    case (Some x)
    obtain i d cb where x: "x = (i, d, cb)" by (cases x)
    from fire_tm [OF assms Some [unfolded x]] TimerFires Some x show ?thesis
      by (simp add: step_def)
  qed
qed (use assms in \<open>simp_all add: step_def initBrowser_def addTab_ui_tm switchTab_tm closeTab_tm
    navigateToUrl_tm goBack_ui_tm goForward_ui_tm reload_tm retry_tm onLoad_tm onError_tm tm_frame\<close>)

lemma reachable_timer_inv: "reachable pu b \<Longrightarrow> timer_inv b"
proof (induction rule: reachable.induct)
  case reach_start
  show ?case by (simp add: timer_inv_def tinv_def newBrowserState_def)
next
  case (reach_step b e)
  then show ?case by (simp add: step_timer_inv)
qed

lemma simple_timers [tm_frame]:
  "timers (showLoading b) = timers b" "nextTimer (showLoading b) = nextTimer b"
  "timers (hideError b) = timers b" "nextTimer (hideError b) = nextTimer b"
  "timers (hideWelcomeScreen b) = timers b" "nextTimer (hideWelcomeScreen b) = nextTimer b"
  "timers (updateTabBar b) = timers b" "nextTimer (updateTabBar b) = nextTimer b"
  "timers (updateNavButtons b) = timers b" "nextTimer (updateNavButtons b) = nextTimer b"
  "timers (updateTabUrl b i u) = timers b" "nextTimer (updateTabUrl b i u) = nextTimer b"
  "timers (updateTabTitle b i u) = timers b" "nextTimer (updateTabTitle b i u) = nextTimer b"
  "timers (addToHistory b i u) = timers b" "nextTimer (addToHistory b i u) = nextTimer b"
  "timers (update_iframe r g b) = timers b" "nextTimer (update_iframe r g b) = nextTimer b"
  "timers (fst (createTabIframe b i)) = timers b" "nextTimer (fst (createTabIframe b i)) = nextTimer b"
  by (simp_all add: showLoading_def hideError_def hideWelcomeScreen_def updateTabBar_def
    updateNavButtons_def updateTabUrl_def updateTabTitle_def addToHistory_def update_iframe_def
    createTabIframe_def split: option.splits)

lemma navigateToUrl_active_iframe:
  assumes "getActiveTab b = Some t" and "sanitizeUrl pu u = Inr s"
  shows "\<exists>t'. getActiveTab (navigateToUrl pu b u) = Some t' \<and>
     iframe t' = Some (case iframe t of Some r \<Rightarrow> r | None \<Rightarrow> length (iframes b))"
proof -
  from assms(1) obtain a where a: "activeTabId b = Some a" "find_tab (tabs b) a = Some t"
    by (auto simp: getActiveTab_def split: option.splits)
  then have i: "tab_id t = a" by (simp add: find_tab_Some_id)
  define ttl where "ttl = (case pu s of Some host \<Rightarrow> host | None \<Rightarrow> js ''Navigating...'')"
  define t3 where "t3 = (push_history s (t\<lparr>url := s\<rparr>))\<lparr>title := (if ttl = [] then js ''Untitled'' else ttl)\<rparr>"
  define ts3 where "ts3 = update_tab a (\<lambda>t. t\<lparr>title := (if ttl = [] then js ''Untitled'' else ttl)\<rparr>)
      (update_tab a (push_history s) (update_tab a (\<lambda>t. t\<lparr>url := s\<rparr>) (tabs b)))"
  have f3: "find_tab ts3 a = Some t3"
    unfolding ts3_def t3_def using a(2) i
    by (intro find_tab_update_tab_same) (simp_all add: push_history_def Let_def)
  have i3: "iframe t3 = iframe t" "tab_id t3 = a"
    using i by (simp_all add: t3_def push_history_def Let_def)
  show ?thesis
  proof (cases "iframe t")
    case (Some r)
    have "tabs (navigateToUrl pu b u) = ts3" "activeTabId (navigateToUrl pu b u) = Some a"
      using assms Some i a(1)
      by (simp_all add: navigateToUrl_def Let_def reg_frame ts3_def ttl_def updateTabUrl_def
        addToHistory_def updateTabTitle_def)
    with f3 i3 Some show ?thesis by (simp add: getActiveTab_def)
  next
    case None
    define t5 where "t5 = t3\<lparr>iframe := Some (length (iframes b))\<rparr>"
    have f5: "find_tab (update_tab a (\<lambda>t. t\<lparr>iframe := Some (length (iframes b))\<rparr>) ts3) a = Some t5"
      unfolding t5_def using f3 i3 by (intro find_tab_update_tab_same) simp_all
    have "tabs (navigateToUrl pu b u) = update_tab a (\<lambda>t. t\<lparr>iframe := Some (length (iframes b))\<rparr>) ts3"
      "activeTabId (navigateToUrl pu b u) = Some a"
      using assms None i a(1)
      by (simp_all add: navigateToUrl_def Let_def reg_frame tm_frame ts3_def ttl_def updateTabUrl_def
        addToHistory_def updateTabTitle_def createTabIframe_def)
    with f5 None show ?thesis by (simp add: getActiveTab_def t5_def)
  qed
qed

lemma navigateToUrl_timers:
  assumes "timer_inv b" and "getActiveTab b = Some t" and "sanitizeUrl pu u = Inr s"
  defines "r \<equiv> (case iframe t of Some r \<Rightarrow> r | None \<Rightarrow> length (iframes b))"
  shows "r < length (iframes (navigateToUrl pu b u))"
    and "filter (\<lambda>x. isTimeoutOf r (snd (snd x))) (timers (navigateToUrl pu b u)) =
           [(nextTimer b, 10000, CbTimeout r s)]"
    and "loadTimeout (iframes (navigateToUrl pu b u) ! r) = Some (nextTimer b)"
    and "\<forall>x\<in>set (timers b). \<not> isTimeoutOf r (snd (snd x)) \<longrightarrow> x \<in> set (timers (navigateToUrl pu b u))"
    and "\<exists>cl. timers (navigateToUrl pu b u) = cl @ [(nextTimer b, 10000, CbTimeout r s)] \<and>
           set cl \<subseteq> set (timers b) \<and> (\<forall>x\<in>set cl. \<not> isTimeoutOf r (snd (snd x)))"
proof -
  define b4 where "b4 = updateNavButtons (updateTabBar (updateTabTitle
      (addToHistory (updateTabUrl b (tab_id t) s) (tab_id t) s) (tab_id t)
      (case pu s of Some host \<Rightarrow> host | None \<Rightarrow> js ''Navigating...''))\<lparr>addressBarValue := s\<rparr>)"
  define p where "p = (case iframe t of Some r \<Rightarrow> (b4, r) | None \<Rightarrow> createTabIframe b4 (tab_id t))"
  define b7 where "b7 = update_iframe (snd p) (\<lambda>f. f\<lparr>display := DBlock, hasLoaded_prop := Some False\<rparr>)
      (hideWelcomeScreen (hideError (showLoading (fst p))))"
  have nav: "navigateToUrl pu b u =
      update_iframe (snd p) (\<lambda>f. f\<lparr>src := s\<rparr>) (startLoadTimeout b7 (snd p) s)"
    unfolding b7_def p_def b4_def using assms(2,3)
    by (simp add: navigateToUrl_def Let_def case_prod_beta)
  have 4: "timer_inv b4" "iframes b4 = iframes b" "timers b4 = timers b" "nextTimer b4 = nextTimer b"
    using assms(1) by (simp_all add: b4_def tm_frame)
  have sp: "snd p = r"
    by (simp add: p_def r_def createTabIframe_len 4 split: option.splits)
  have 5: "timer_inv (fst p)" "r < length (iframes (fst p))" "timers (fst p) = timers b"
    "nextTimer (fst p) = nextTimer b"
  proof -
    show "timer_inv (fst p)"
      using 4 by (simp add: p_def createTabIframe_tm split: option.splits)
    show "r < length (iframes (fst p))"
    proof (cases "iframe t")
      case None
      with 4 show ?thesis by (simp add: p_def r_def createTabIframe_len)
    next
      case (Some q)
      from timer_inv_active_ref [OF assms(1,2) Some] 4 Some show ?thesis
        by (simp add: p_def r_def)
    qed
    show "timers (fst p) = timers b" "nextTimer (fst p) = nextTimer b"
      using 4 by (simp_all add: p_def tm_frame split: option.splits)
  qed
  have 7: "timer_inv b7" "r < length (iframes b7)" "timers b7 = timers b" "nextTimer b7 = nextTimer b"
    using 5 by (simp_all add: b7_def sp tm_frame update_iframe_tm)
  define ls where "ls = map loadTimeout (iframes b7)"
  define cl where "cl = (case ls ! r of None \<Rightarrow> timers b
      | Some tid \<Rightarrow> filter (\<lambda>x. fst x \<noteq> tid) (timers b))"
  have t7: "tinv (timers b) (nextTimer b) ls (map iframe (tabs b7))"
    using 7 by (simp add: timer_inv_def ls_def)
  have rl: "r < length ls" "ls ! r = loadTimeout (iframes b7 ! r)"
    using 7(2) by (simp_all add: ls_def)
  have tm: "timers (navigateToUrl pu b u) = cl @ [(nextTimer b, 10000, CbTimeout r s)]"
    by (simp add: nav sp tm_frame startLoadTimeout_timers 7 cl_def rl split: option.splits)
  have no: "\<forall>x\<in>set cl. \<not> isTimeoutOf r (snd (snd x))"
    using no_timeout_after_clear [OF t7 rl(1)] by (simp add: cl_def)
  show "r < length (iframes (navigateToUrl pu b u))"
    using 7(2) by (simp add: nav sp tm_frame)
  show "filter (\<lambda>x. isTimeoutOf r (snd (snd x))) (timers (navigateToUrl pu b u)) =
           [(nextTimer b, 10000, CbTimeout r s)]"
    using no by (simp add: tm filter_empty_conv [THEN iffD2])
  show "loadTimeout (iframes (navigateToUrl pu b u) ! r) = Some (nextTimer b)"
    using 7(2,4) by (simp add: nav sp update_iframe_def startLoadTimeout_timers)
  show "\<forall>x\<in>set (timers b). \<not> isTimeoutOf r (snd (snd x)) \<longrightarrow> x \<in> set (timers (navigateToUrl pu b u))"
  proof (intro ballI impI)
    fix x assume x: "x \<in> set (timers b)" and n: "\<not> isTimeoutOf r (snd (snd x))"
    have "x \<in> set cl"
    proof (cases "ls ! r")
      case None
      with x show ?thesis by (simp add: cl_def)
    next
      case (Some tid)
      have "fst x \<noteq> tid"
      proof
        assume "fst x = tid"
        with t7 rl(1) Some x have "isTimeoutOf r (snd (snd x))"
          unfolding tinv_def by blast
        with n show False by simp
      qed
      with x Some show ?thesis by (simp add: cl_def)
    qed
    then show "x \<in> set (timers (navigateToUrl pu b u))" by (simp add: tm)
  qed
  have "set cl \<subseteq> set (timers b)"
    by (cases "ls ! r") (auto simp: cl_def)
  with tm no show "\<exists>cl. timers (navigateToUrl pu b u) = cl @ [(nextTimer b, 10000, CbTimeout r s)] \<and>
           set cl \<subseteq> set (timers b) \<and> (\<forall>x\<in>set cl. \<not> isTimeoutOf r (snd (snd x)))"
    by blast
qed

section \<open>Navigation and pending timers\<close>

lemmas page_defs = step_def run_def initBrowser_def addTab_ui_def addTab_def new_tab_def
  newBrowserState_def switchTab_def navigateToUrl_def closeTab_def removeTab_def
  getActiveTab_def find_tab_def createTabElement_def createTabIframe_def
  showWelcomeScreen_def hideWelcomeScreen_def showLoading_def hideLoading_def showError_def
  hideError_def updateNavButtons_def updateTabBar_def updateTabUrl_def updateTabTitle_def
  addToHistory_def push_history_def slice0_def canGoBack_def canGoForward_def
  startLoadTimeout_def setTimeout_def clearTimeout_def update_iframe_def cancelLoadTimeout_def
  onLoad_def onError_def settleCheck_def settleWindow_def finalCheck_def loadTimedOut_def
  runCallback_def hostOf_def sanitizeUrl_def trim_def isSpace_def decimal.simps js_def Let_def

lemma find_absent: "tid \<notin> set (map fst ts) \<Longrightarrow> List.find (\<lambda>x. fst x = tid) ts = None"
  by (induction ts) auto

text \<open>
  Claim C1, amended. The page has no attempt token; what a new navigation cancels is the
  pending load timeout of the tab's iframe. In every reachable state, after \<open>navigateToUrl\<close>
  on the active tab the only pending load timeout of its iframe is the one just started for
  the new URL; a load timeout of that iframe pending before is gone and does nothing when
  its identifier fires. Every other pending timer, the 500 ms check and the final check of
  an earlier navigation among them, stays pending.
\<close>

theorem navigateToUrl_supersedes:
  assumes "reachable pu b" and "getActiveTab b = Some t" and "sanitizeUrl pu u = Inr s"
  shows "let b' = navigateToUrl pu b u;
             r = (case iframe t of Some r \<Rightarrow> r | None \<Rightarrow> length (iframes b))
         in (\<exists>t'. getActiveTab b' = Some t' \<and> iframe t' = Some r) \<and>
            r < length (iframes b') \<and>
            filter (\<lambda>x. isTimeoutOf r (snd (snd x))) (timers b') =
              [(nextTimer b, 10000, CbTimeout r s)] \<and>
            loadTimeout (iframes b' ! r) = Some (nextTimer b) \<and>
            (\<forall>x\<in>set (timers b). isTimeoutOf r (snd (snd x)) \<longrightarrow>
               fst x \<notin> set (map fst (timers b')) \<and>
               (\<forall>doc w. step pu b' (TimerFires (fst x) doc w) = b')) \<and>
            (\<forall>x\<in>set (timers b). \<not> isTimeoutOf r (snd (snd x)) \<longrightarrow> x \<in> set (timers b'))"
proof -
  define b' where "b' = navigateToUrl pu b u"
  define r where "r = (case iframe t of Some r \<Rightarrow> r | None \<Rightarrow> length (iframes b))"
  have inv: "timer_inv b"
    using assms(1) by (rule reachable_timer_inv)
  note n = navigateToUrl_timers [OF inv assms(2,3), folded r_def b'_def]
  have a: "\<exists>t'. getActiveTab b' = Some t' \<and> iframe t' = Some r"
    using navigateToUrl_active_iframe [OF assms(2,3)] by (simp add: b'_def r_def)
  have gone: "fst x \<notin> set (map fst (timers b'))"
    if x: "x \<in> set (timers b)" "isTimeoutOf r (snd (snd x))" for x
  proof
    assume "fst x \<in> set (map fst (timers b'))"
    then obtain y where y: "y \<in> set (timers b')" "fst y = fst x" by auto
    from n(5) obtain cl where cl: "timers b' = cl @ [(nextTimer b, 10000, CbTimeout r s)]"
      "set cl \<subseteq> set (timers b)" "\<forall>x\<in>set cl. \<not> isTimeoutOf r (snd (snd x))"
      by blast
    have lt: "fst x < nextTimer b"
      using inv x(1) by (simp add: timer_inv_def tinv_def)
    have d: "distinct (map fst (timers b))"
      using inv by (simp add: timer_inv_def tinv_def)
    from y(1) cl(1) consider "y \<in> set cl" | "y = (nextTimer b, 10000, CbTimeout r s)" by auto
    then show False
    proof cases
      case 1
      with cl(2) have "y \<in> set (timers b)" by blast
      with d x(1) y(2) have "y = x"
        by (meson distinct_map inj_onD)
      with 1 cl(3) x(2) show False by blast
    next
      case 2
      with y(2) lt show False by simp
    qed
  qed
  have quiet: "step pu b' (TimerFires (fst x) doc w) = b'"
    if x: "x \<in> set (timers b)" "isTimeoutOf r (snd (snd x))" for x doc w
    using find_absent [OF gone [OF x]] by (simp add: step_def)
  show ?thesis
    unfolding Let_def b'_def [symmetric] r_def [symmetric]
    using a n(1,2,3,4) gone quiet by blast
qed

lemma reachable_run: "reachable pu (run pu newBrowserState es)"
proof (induction es rule: rev_induct)
  case Nil
  show ?case by (simp add: run_def reachable.reach_start)
next
  case (snoc e es)
  then show ?case by (simp add: run_def reachable.reach_step)
qed

lemma example_steps:
  "step hostOf newBrowserState (DOMContentLoaded 7 7) = example_opened"
  "step hostOf example_opened (QuickLink (js ''https://a.example'')) = example_loading_a"
  "step hostOf example_loading_a (IframeLoad 0) = example_loaded_a"
  "step hostOf example_loaded_a (QuickLink (js ''https://b.example'')) = example_loading_b"
  "step hostOf example_loading_b (IframeError 0) = example_failed_b"
  "step hostOf example_failed_b (TimerFires 2 DocThrows True) = example_after_stale"
  "navigateToUrl hostOf example_loading_b (js ''https://c.example'') = example_loading_c"
  by (simp_all add: example_opened_def example_loading_a_def example_loaded_a_def
    example_loading_b_def example_failed_b_def example_after_stale_def example_loading_c_def
    page_defs)

lemma example_runs:
  "run hostOf newBrowserState [DOMContentLoaded 7 7] = example_opened"
  "run hostOf newBrowserState [DOMContentLoaded 7 7, QuickLink (js ''https://a.example''),
     IframeLoad 0] = example_loaded_a"
  "run hostOf newBrowserState [DOMContentLoaded 7 7, QuickLink (js ''https://a.example''),
     IframeLoad 0, QuickLink (js ''https://b.example'')] = example_loading_b"
  "run hostOf newBrowserState [DOMContentLoaded 7 7, QuickLink (js ''https://a.example''),
     IframeLoad 0, QuickLink (js ''https://b.example''), IframeError 0] = example_failed_b"
  by (simp_all add: run_def example_steps)

theorem navigateToUrl_supersedes_witness:
  "reachable hostOf example_loading_b \<and>
   getActiveTab example_loading_b = Some (hd (tabs example_loading_b)) \<and>
   iframe (hd (tabs example_loading_b)) = Some 0 \<and>
   sanitizeUrl hostOf (js ''https://c.example'') = Inr (js ''https://c.example'') \<and>
   timers example_loading_b =
     [(2, 500, CbSettle 0), (3, 10000, CbTimeout 0 (js ''https://b.example''))] \<and>
   filter (\<lambda>x. isTimeoutOf 0 (snd (snd x)))
     (timers (navigateToUrl hostOf example_loading_b (js ''https://c.example''))) =
     [(4, 10000, CbTimeout 0 (js ''https://c.example''))] \<and>
   3 \<notin> set (map fst (timers (navigateToUrl hostOf example_loading_b (js ''https://c.example'')))) \<and>
   step hostOf (navigateToUrl hostOf example_loading_b (js ''https://c.example''))
     (TimerFires 3 DocThrows True) =
     navigateToUrl hostOf example_loading_b (js ''https://c.example'') \<and>
   (2, 500, CbSettle 0) \<in>
     set (timers (navigateToUrl hostOf example_loading_b (js ''https://c.example'')))"
proof -
  define b where "b = example_loading_b"
  define t where "t = hd (tabs b)"
  have r: "reachable hostOf b"
    unfolding b_def example_runs(3) [symmetric] by (rule reachable_run)
  have g: "getActiveTab b = Some t"
    by (simp add: b_def t_def example_loading_b_def getActiveTab_def find_tab_def)
  have i: "iframe t = Some 0"
    by (simp add: b_def t_def example_loading_b_def)
  have s: "sanitizeUrl hostOf (js ''https://c.example'') = Inr (js ''https://c.example'')"
    by (simp add: sanitize_defs)
  have tm: "timers b = [(2, 500, CbSettle 0), (3, 10000, CbTimeout 0 (js ''https://b.example''))]"
    and nt: "nextTimer b = 4"
    by (simp_all add: b_def example_loading_b_def)
  from navigateToUrl_supersedes [OF r g s]
  have c: "filter (\<lambda>x. isTimeoutOf 0 (snd (snd x))) (timers (navigateToUrl hostOf b (js ''https://c.example''))) =
       [(4, 10000, CbTimeout 0 (js ''https://c.example''))]"
    and d: "\<forall>x\<in>set (timers b). isTimeoutOf 0 (snd (snd x)) \<longrightarrow>
       fst x \<notin> set (map fst (timers (navigateToUrl hostOf b (js ''https://c.example'')))) \<and>
       (\<forall>doc w. step hostOf (navigateToUrl hostOf b (js ''https://c.example''))
          (TimerFires (fst x) doc w) = navigateToUrl hostOf b (js ''https://c.example''))"
    and e: "\<forall>x\<in>set (timers b). \<not> isTimeoutOf 0 (snd (snd x)) \<longrightarrow>
       x \<in> set (timers (navigateToUrl hostOf b (js ''https://c.example'')))"
    unfolding Let_def i nt by simp_all
  from d have d': "3 \<notin> set (map fst (timers (navigateToUrl hostOf b (js ''https://c.example''))))"
    "step hostOf (navigateToUrl hostOf b (js ''https://c.example'')) (TimerFires 3 DocThrows True) =
       navigateToUrl hostOf b (js ''https://c.example'')"
    unfolding tm by simp_all
  from e have e': "(2, 500, CbSettle 0) \<in> set (timers (navigateToUrl hostOf b (js ''https://c.example'')))"
    unfolding tm by simp
  show ?thesis
    using r g i s tm c d' e' unfolding t_def b_def by blast
qed

text \<open>
  Claim C1 as stated fails. The 500 ms check scheduled by the load event of the first
  navigation is still pending after the second navigation has started and failed with the
  error panel shown; when it fires it hides the error panel.
\<close>

theorem stale_settle_hides_error:
  "run hostOf newBrowserState [DOMContentLoaded 7 7, QuickLink (js ''https://a.example''),
      IframeLoad 0] = example_loaded_a \<and>
   timers example_loaded_a = [(2, 500, CbSettle 0)] \<and>
   run hostOf newBrowserState [DOMContentLoaded 7 7, QuickLink (js ''https://a.example''),
      IframeLoad 0, QuickLink (js ''https://b.example''), IframeError 0] = example_failed_b \<and>
   timers example_failed_b = [(2, 500, CbSettle 0)] \<and>
   errorDisplay example_failed_b = DFlex \<and>
   step hostOf example_failed_b (TimerFires 2 DocThrows True) = example_after_stale \<and>
   errorDisplay example_after_stale = DNone"
  by (simp add: example_runs example_steps)
    (simp add: example_loaded_a_def example_failed_b_def example_after_stale_def)

text \<open>
  Claim C6, amended. \<open>switchTab\<close> sets the active identifier to its argument whether or not
  a tab carries it, and leaves the tabs' identifiers as they are; so the active identifier
  names a present tab afterwards exactly when the argument did. In every reachable state
  the active identifier, when set, names a present tab, and the identifier of every tab
  element (the only identifiers clicks pass to \<open>switchTab\<close>) is that of a present tab.
\<close>

theorem switchTab_sets_active:
  "activeTabId (switchTab b i) = Some i \<and>
   map tab_id (tabs (switchTab b i)) = map tab_id (tabs b) \<and>
   (i \<in> set (map tab_id (tabs b)) \<longrightarrow> active_ok (switchTab b i)) \<and>
   (i \<notin> set (map tab_id (tabs b)) \<longrightarrow> \<not> active_ok (switchTab b i)) \<and>
   (reachable parseURL b \<longrightarrow> active_ok b \<and> bar_ok b) \<and>
   (reachable parseURL b \<and> k < length (tabBar b) \<longrightarrow>
      el_id (tabBar b ! k) \<in> set (map tab_id (tabs b)))"
proof (intro conjI impI)
  show "activeTabId (switchTab b i) = Some i"
    by (rule switchTab_reg)
  show "map tab_id (tabs (switchTab b i)) = map tab_id (tabs b)"
    by (rule switchTab_reg)
  show "active_ok (switchTab b i)" if "i \<in> set (map tab_id (tabs b))"
    using that by (simp add: active_ok_def switchTab_reg del: set_map)
  show "\<not> active_ok (switchTab b i)" if "i \<notin> set (map tab_id (tabs b))"
    using that by (simp add: active_ok_def switchTab_reg del: set_map)
  show "active_ok b" "bar_ok b" if "reachable parseURL b"
    using reachable_reg_inv [OF that] by (simp_all add: reg_inv_def)
  show "el_id (tabBar b ! k) \<in> set (map tab_id (tabs b))"
    if "reachable parseURL b \<and> k < length (tabBar b)"
  proof -
    from that reachable_reg_inv have "map el_id (tabBar b) = map tab_id (tabs b)"
      by (auto simp: reg_inv_def bar_ok_def)
    moreover have "el_id (tabBar b ! k) \<in> set (map el_id (tabBar b))"
      using that by (metis length_map nth_map nth_mem)
    ultimately show ?thesis by simp
  qed
qed

theorem switchTab_sets_active_witness:
  "js ''tab-7'' \<in> set (map tab_id (tabs example_opened)) \<and>
   active_ok (switchTab example_opened (js ''tab-7'')) \<and>
   js ''tab-9'' \<notin> set (map tab_id (tabs example_opened)) \<and>
   \<not> active_ok (switchTab example_opened (js ''tab-9'')) \<and>
   reachable hostOf example_opened \<and>
   (0::nat) < length (tabBar example_opened) \<and>
   active_ok example_opened \<and>
   bar_ok example_opened \<and>
   el_id (tabBar example_opened ! 0) = js ''tab-7''"
proof -
  define b where "b = example_opened"
  have ids: "map tab_id (tabs b) = [js ''tab-7'']" and bar: "map el_id (tabBar b) = [js ''tab-7'']"
    by (simp_all add: b_def example_opened_def)
  have ne: "js ''tab-9'' \<noteq> js ''tab-7''"
    by (simp add: js_def)
  have h1: "js ''tab-7'' \<in> set (map tab_id (tabs b))"
    and h2: "js ''tab-9'' \<notin> set (map tab_id (tabs b))"
    using ne by (simp_all add: ids del: set_map)
  have r: "reachable hostOf b"
    unfolding b_def example_runs(1) [symmetric] by (rule reachable_run)
  have k: "0 < length (tabBar b)"
    using bar by (cases "tabBar b") simp_all
  have e0: "el_id (tabBar b ! 0) = js ''tab-7''"
    using bar by (cases "tabBar b") simp_all
  note a = switchTab_sets_active [of b "js ''tab-7''" hostOf 0]
  note c = switchTab_sets_active [of b "js ''tab-9''" hostOf 0]
  have "active_ok (switchTab b (js ''tab-7''))" using a h1 by blast
  moreover have "\<not> active_ok (switchTab b (js ''tab-9''))" using c h2 by blast
  moreover have "active_ok b" "bar_ok b" using a r by blast+
  ultimately show ?thesis
    unfolding b_def [symmetric] using h1 h2 r k e0 by blast
qed

text \<open>
  Claim C6 as stated fails: with an identifier that no tab carries, \<open>switchTab\<close> is not a
  no-op, the active identifier becomes that identifier.
\<close>

theorem switchTab_unknown_id:
  "run hostOf newBrowserState [DOMContentLoaded 7 7] = example_opened \<and>
   js ''tab-9'' \<notin> set (map tab_id (tabs example_opened)) \<and>
   activeTabId example_opened = Some (js ''tab-7'') \<and>
   activeTabId (switchTab example_opened (js ''tab-9'')) = Some (js ''tab-9'') \<and>
   switchTab example_opened (js ''tab-9'') \<noteq> example_opened"
proof -
  have a: "activeTabId (switchTab example_opened (js ''tab-9'')) = Some (js ''tab-9'')"
    by (rule switchTab_reg)
  have b: "activeTabId example_opened = Some (js ''tab-7'')"
    and c: "js ''tab-9'' \<notin> set (map tab_id (tabs example_opened))"
    by (simp_all add: example_opened_def js_def)
  have "js ''tab-9'' \<noteq> js ''tab-7''"
    by (simp add: js_def)
  with a b have "switchTab example_opened (js ''tab-9'') \<noteq> example_opened"
    by auto
  with a b c example_runs(1) show ?thesis by blast
qed

section \<open>Histories and capacity in reachable states\<close>

named_theorems tabs_frame

lemma update_tab_set:
  "set (update_tab i f ts) \<subseteq> set ts \<union> (case find_tab ts i of None \<Rightarrow> {} | Some t \<Rightarrow> {f t})"
  by (induction ts) (auto simp: find_tab_def)

lemma update_tab_hist:
  assumes "\<forall>t\<in>set ts. history_inv t"
    and "\<And>t. find_tab ts i = Some t \<Longrightarrow> history_inv t \<Longrightarrow> history_inv (f t)"
  shows "\<forall>t\<in>set (update_tab i f ts). history_inv t"
proof
  fix t assume "t \<in> set (update_tab i f ts)"
  with update_tab_set [of i f ts]
  have "t \<in> set ts \<or> (\<exists>t0. find_tab ts i = Some t0 \<and> t = f t0)"
    by (auto split: option.splits)
  then show "history_inv t"
    using assms find_tab_mem by blast
qed

lemma length_update_tab: "length (update_tab i f ts) = length ts"
  by (induction ts) auto

lemma tabs_inv_update_tab:
  assumes "tabs_inv b"
    and "\<And>t. find_tab (tabs b) i = Some t \<Longrightarrow> history_inv t \<Longrightarrow> history_inv (f t)"
  shows "tabs_inv (b\<lparr>tabs := update_tab i f (tabs b)\<rparr>)"
  using assms update_tab_hist [of "tabs b" i f]
  by (simp add: tabs_inv_def hist_ok_def cap_ok_def length_update_tab)

lemma tabs_inv_same:
  assumes "tabs b' = tabs b" and "maxTabs b' = maxTabs b"
  shows "tabs_inv b' = tabs_inv b"
  using assms by (simp add: tabs_inv_def hist_ok_def cap_ok_def)

lemma history_inv_push: "history_inv (push_history u t)"
  by (simp add: history_inv_def push_history_def Let_def)

lemma simple_tabs [tabs_frame]:
  "tabs_inv (showLoading b) = tabs_inv b"
  "tabs_inv (hideLoading b) = tabs_inv b"
  "tabs_inv (showWelcomeScreen b) = tabs_inv b"
  "tabs_inv (hideWelcomeScreen b) = tabs_inv b"
  "tabs_inv (showError b m u) = tabs_inv b"
  "tabs_inv (hideError b) = tabs_inv b"
  "tabs_inv (updateTabBar b) = tabs_inv b"
  "tabs_inv (updateNavButtons b) = tabs_inv b"
  "tabs_inv (clearTimeout b k) = tabs_inv b"
  "tabs_inv (fst (setTimeout b cb d)) = tabs_inv b"
  "tabs_inv (update_iframe r g b) = tabs_inv b"
  "tabs_inv (cancelLoadTimeout b r) = tabs_inv b"
  "tabs_inv (startLoadTimeout b r u) = tabs_inv b"
  "tabs_inv (onLoad b r) = tabs_inv b"
  "tabs_inv (onError b r) = tabs_inv b"
  "tabs_inv (finalCheck b r h doc) = tabs_inv b"
  "tabs_inv (loadTimedOut pu b r u) = tabs_inv b"
  "tabs_inv (reload b) = tabs_inv b"
  "tabs_inv (b\<lparr>addressBarValue := v\<rparr>) = tabs_inv b"
  "tabs_inv (b\<lparr>activeTabId := a\<rparr>) = tabs_inv b"
  "tabs_inv (b\<lparr>tabBar := es\<rparr>) = tabs_inv b"
  "tabs_inv (b\<lparr>timers := ts\<rparr>) = tabs_inv b"
  "tabs_inv (b\<lparr>iframes := fs\<rparr>) = tabs_inv b"
  by (rule tabs_inv_same;
      simp add: showLoading_def hideLoading_def showWelcomeScreen_def hideWelcomeScreen_def
        showError_def hideError_def updateTabBar_def updateNavButtons_def clearTimeout_def
        setTimeout_def update_iframe_def cancelLoadTimeout_def startLoadTimeout_def onLoad_def
        onError_def finalCheck_def loadTimedOut_def reload_def Let_def
        split: option.splits doc_probe.splits)+

lemma tab_updates_tabs [tabs_frame]:
  "tabs_inv b \<Longrightarrow> tabs_inv (updateTabUrl b i u)"
  "tabs_inv b \<Longrightarrow> tabs_inv (updateTabTitle b i u)"
  "tabs_inv b \<Longrightarrow> tabs_inv (addToHistory b i u)"
  "tabs_inv b \<Longrightarrow> tabs_inv (fst (createTabIframe b i))"
  unfolding updateTabUrl_def updateTabTitle_def addToHistory_def createTabIframe_def fst_conv
  by (rule tabs_inv_same [THEN iffD1, rotated 2], rule tabs_inv_update_tab, assumption;
      simp add: history_inv_def history_inv_push [unfolded history_inv_def])+

lemma goBack_tabs [tabs_frame]:
  assumes "tabs_inv b"
  shows "tabs_inv (fst (goBack b i))"
proof (cases "find_tab (tabs b) i")
  case None
  with assms show ?thesis by (simp add: goBack_def)
next
  case (Some t)
  show ?thesis
  proof (cases "canGoBack b i")
    case False
    with Some assms show ?thesis by (simp add: goBack_def)
  next
    case True
    have "tabs_inv (b\<lparr>tabs := update_tab i (\<lambda>t. t\<lparr>historyIndex := historyIndex t - 1\<rparr>) (tabs b)\<rparr>)"
      using assms
    proof (rule tabs_inv_update_tab)
      fix t' assume "find_tab (tabs b) i = Some t'" "history_inv t'"
      with True show "history_inv (t'\<lparr>historyIndex := historyIndex t' - 1\<rparr>)"
        by (simp add: canGoBack_def history_inv_def)
    qed
    with Some True show ?thesis by (simp add: goBack_def)
  qed
qed

lemma goForward_tabs [tabs_frame]:
  assumes "tabs_inv b"
  shows "tabs_inv (fst (goForward b i))"
proof (cases "find_tab (tabs b) i")
  case None
  with assms show ?thesis by (simp add: goForward_def)
next
  case (Some t)
  show ?thesis
  proof (cases "canGoForward b i")
    case False
    with Some assms show ?thesis by (simp add: goForward_def)
  next
    case True
    have "tabs_inv (b\<lparr>tabs := update_tab i (\<lambda>t. t\<lparr>historyIndex := historyIndex t + 1\<rparr>) (tabs b)\<rparr>)"
      using assms
    proof (rule tabs_inv_update_tab)
      fix t' assume "find_tab (tabs b) i = Some t'" "history_inv t'"
      with True show "history_inv (t'\<lparr>historyIndex := historyIndex t' + 1\<rparr>)"
        by (simp add: canGoForward_def history_inv_def)
    qed
    with Some True show ?thesis by (simp add: goForward_def)
  qed
qed

lemma settle_tabs [tabs_frame]:
  "tabs_inv b \<Longrightarrow> tabs_inv (settleWindow pu b r w)"
  "tabs_inv b \<Longrightarrow> tabs_inv (settleCheck pu b r doc w)"
  by (simp_all add: settleWindow_def settleCheck_def Let_def tabs_frame
    split: option.splits doc_probe.splits)

lemma runCallback_tabs: "tabs_inv b \<Longrightarrow> tabs_inv (runCallback pu b cb doc w)"
  by (cases cb) (simp_all add: runCallback_def tabs_frame)

lemma switchTab_tabs:
  assumes "tabs_inv b"
  shows "tabs_inv (switchTab b i)"
proof -
  define b1 where "b1 = b\<lparr>activeTabId := Some i,
      iframes := map (\<lambda>f. if attached f then f\<lparr>display := DNone\<rparr> else f) (iframes b),
      tabBar := map (\<lambda>e. e\<lparr>el_active := (el_id e = i)\<rparr>) (tabBar b)\<rparr>"
  have 1: "tabs_inv b1"
    using assms unfolding b1_def by (simp add: tabs_inv_def hist_ok_def cap_ok_def)
  show ?thesis
  proof (cases "getActiveTab b1")
    case None
    with 1 show ?thesis by (simp add: switchTab_def Let_def b1_def [symmetric])
  next
    case (Some t)
    define b2 where "b2 = b1\<lparr>addressBarValue := url t\<rparr>"
    have 2: "tabs_inv b2" using 1 by (simp add: b2_def tabs_frame)
    have 3: "tabs_inv (hideWelcomeScreen (update_iframe r (\<lambda>f. f\<lparr>display := DBlock\<rparr>) b2))" for r
      using 2 by (simp add: tabs_frame)
    have 4: "tabs_inv (hideWelcomeScreen (update_iframe r (\<lambda>f. f\<lparr>src := url t, display := DBlock\<rparr>)
        (fst (createTabIframe b2 (tab_id t)))))" for r
      using 2 by (simp add: tabs_frame)
    have 5: "tabs_inv (showWelcomeScreen b2)"
      using 2 by (simp add: tabs_frame)
    from 3 4 5 Some show ?thesis
      by (simp add: switchTab_def Let_def b1_def [symmetric] b2_def [symmetric] case_prod_beta
        tabs_frame split: option.splits)
  qed
qed

lemma navigateToUrl_tabs: "tabs_inv b \<Longrightarrow> tabs_inv (navigateToUrl pu b u)"
  by (simp add: navigateToUrl_def Let_def case_prod_beta tabs_frame split: option.splits sum.splits)

lemma showUrl_tabs: "tabs_inv b \<Longrightarrow> tabs_inv (showUrl b t r res)"
  by (cases res) (simp_all add: showUrl_def Let_def tabs_frame)

lemma goBack_ui_tabs: "tabs_inv b \<Longrightarrow> tabs_inv (goBack_ui b)"
  by (simp add: goBack_ui_def case_prod_beta showUrl_tabs tabs_frame split: option.splits)

lemma goForward_ui_tabs: "tabs_inv b \<Longrightarrow> tabs_inv (goForward_ui b)"
  by (simp add: goForward_ui_def case_prod_beta showUrl_tabs tabs_frame split: option.splits)

lemma retry_tabs: "tabs_inv b \<Longrightarrow> tabs_inv (retry pu b)"
  by (simp add: retry_def Let_def navigateToUrl_tabs)

lemma addTab_tabs: "tabs_inv b \<Longrightarrow> tabs_inv (fst (addTab b u now now'))"
  by (auto simp: addTab_def tabs_inv_def hist_ok_def cap_ok_def new_tab_def history_inv_def)

lemma addTab_ui_tabs:
  assumes "tabs_inv b"
  shows "tabs_inv (addTab_ui pu b u now now')"
proof (cases "if u = [] then Inr [] else sanitizeUrl pu u")
  case (Inl e)
  with assms show ?thesis by (simp add: addTab_ui_def)
next
  case (Inr s)
  show ?thesis
  proof (cases "addTab b s now now'")
    case (Pair b1 topt)
    have 1: "tabs_inv b1"
      using addTab_tabs [OF assms, of s now now'] Pair by simp
    show ?thesis
    proof (cases topt)
      case None
      with Inr Pair 1 show ?thesis by (simp add: addTab_ui_def)
    next
      case (Some t)
      have "tabs_inv (switchTab (b1\<lparr>tabBar := tabBar b1 @ [createTabElement t],
          activeTabId := Some (tab_id t)\<rparr>) (tab_id t))"
        using 1 by (simp add: switchTab_tabs tabs_frame)
      with Inr Pair Some show ?thesis
        by (simp add: addTab_ui_def Let_def navigateToUrl_tabs)
    qed
  qed
qed

lemma removeTab_tabs:
  assumes "tabs_inv b"
  shows "tabs_inv (removeTab b i)"
proof (cases "findIndex (\<lambda>t. tab_id t = i) (tabs b)")
  case None
  with assms show ?thesis by (simp add: removeTab_def)
next
  case (Some k)
  have "set (take k (tabs b) @ drop (Suc k) (tabs b)) \<subseteq> set (tabs b)"
    by (auto dest: in_set_takeD in_set_dropD)
  moreover have "length (take k (tabs b) @ drop (Suc k) (tabs b)) \<le> length (tabs b)"
    by simp
  ultimately show ?thesis
    using assms Some
    by (auto simp: removeTab_def Let_def tabs_inv_def hist_ok_def cap_ok_def)
qed

lemma closeTab_tabs:
  assumes "tabs_inv b"
  shows "tabs_inv (closeTab b i)"
proof -
  have "tabs_inv (removeTab b i\<lparr>tabBar := es\<rparr>)" for es
    using assms by (simp add: tabs_frame removeTab_tabs)
  then have "tabs_inv (switchTab (removeTab b i\<lparr>tabBar := es\<rparr>) a)"
    "tabs_inv (showWelcomeScreen (removeTab b i\<lparr>tabBar := es\<rparr>))" for es a
    by (simp_all add: switchTab_tabs tabs_frame)
  with assms show ?thesis
    by (simp add: closeTab_def Let_def split: option.splits)
qed

lemma step_tabs_inv:
  assumes "tabs_inv b"
  shows "tabs_inv (step pu b e)"
  using assms
  by (cases e)
    (simp_all add: step_def initBrowser_def addTab_ui_tabs switchTab_tabs closeTab_tabs
      navigateToUrl_tabs goBack_ui_tabs goForward_ui_tabs retry_tabs runCallback_tabs tabs_frame
      split: option.splits)

lemma reachable_tabs_inv: "reachable pu b \<Longrightarrow> tabs_inv b"
proof (induction rule: reachable.induct)
  case reach_start
  show ?case by (simp add: tabs_inv_def hist_ok_def cap_ok_def newBrowserState_def)
next
  case (reach_step b e)
  then show ?case by (simp add: step_tabs_inv)
qed

lemma reachable_history_inv:
  "reachable pu b \<Longrightarrow> find_tab (tabs b) i = Some t \<Longrightarrow> history_inv t"
  using reachable_tabs_inv [of pu b] find_tab_mem [of "tabs b" i t]
  by (simp add: tabs_inv_def hist_ok_def)

lemma reachable_capacity: "reachable pu b \<Longrightarrow> length (tabs b) \<le> 3"
  using reachable_tabs_inv [of pu b] by (simp add: tabs_inv_def cap_ok_def)

section \<open>Tab identifiers\<close>

text \<open>The identifier is made from the clock reading alone, and the rendering is injective.\<close>

lemma digit_unat:
  assumes "a < 10"
  shows "unat (of_nat (48 + a) :: 16 word) = 48 + a"
proof -
  have "unat (of_nat (48 + a) :: 16 word) = (48 + a) mod 2 ^ LENGTH(16)"
    by (rule unat_of_nat)
  also have "\<dots> = 48 + a"
    using assms by simp
  finally show ?thesis .
qed

lemma digit_inj:
  assumes "a < 10" and "b < 10" and "(of_nat (48 + a) :: 16 word) = of_nat (48 + b)"
  shows "a = b"
proof -
  from assms(3) have "unat (of_nat (48 + a) :: 16 word) = unat (of_nat (48 + b) :: 16 word)"
    by (rule arg_cong)
  then show ?thesis
    by (simp only: digit_unat [OF assms(1)] digit_unat [OF assms(2)] add_left_cancel)
qed

lemma decimal_nonempty: "decimal n \<noteq> []"
  by (subst decimal.simps) simp

lemma decimal_inj: "decimal n = decimal m \<Longrightarrow> n = m"
proof (induction n arbitrary: m rule: decimal.induct)
  case (1 n)
  show ?case
  proof (cases "n < 10")
    case True
    then have n: "decimal n = [of_nat (48 + n)]"
      by (subst decimal.simps) simp
    show ?thesis
    proof (cases "m < 10")
      case mt: True
      then have "decimal m = [of_nat (48 + m)]"
        by (subst decimal.simps) simp
      with n "1.prems" True mt show ?thesis
        by (simp add: digit_inj)
    next
      case False
      then have "decimal m = decimal (m div 10) @ [of_nat (48 + m mod 10)]"
        by (subst decimal.simps) simp
      with n "1.prems" decimal_nonempty [of "m div 10"] show ?thesis
        by (cases "decimal (m div 10)") simp_all
    qed
  next
    case False
    then have n: "decimal n = decimal (n div 10) @ [of_nat (48 + n mod 10)]"
      by (subst decimal.simps) simp
    show ?thesis
    proof (cases "m < 10")
      case True
      then have "decimal m = [of_nat (48 + m)]"
        by (subst decimal.simps) simp
      with n "1.prems" decimal_nonempty [of "n div 10"] show ?thesis
        by (cases "decimal (n div 10)") simp_all
    next
      case mf: False
      then have "decimal m = decimal (m div 10) @ [of_nat (48 + m mod 10)]"
        by (subst decimal.simps) simp
      with n "1.prems" have e: "decimal (n div 10) = decimal (m div 10)"
        "(of_nat (48 + n mod 10) :: 16 word) = of_nat (48 + m mod 10)"
        by simp_all
      from "1.IH" [OF False e(1)] have "n div 10 = m div 10" .
      moreover from e(2) have "n mod 10 = m mod 10"
        by (intro digit_inj) simp_all
      ultimately show ?thesis
        by (metis div_mult_mod_eq)
    qed
  qed
qed

lemma new_tab_id_inj:
  "tab_id (new_tab u now x) = tab_id (new_tab u' now' x') \<longleftrightarrow> now = now'"
  by (auto simp: new_tab_def dest: decimal_inj)

lemma addTab_ui_ids:
  "map tab_id (tabs (addTab_ui pu b u now now')) = map tab_id (tabs b) \<or>
   map tab_id (tabs (addTab_ui pu b u now now')) = map tab_id (tabs b) @ [js ''tab-'' @ decimal now]"
proof (cases "if u = [] then Inr [] else sanitizeUrl pu u")
  case (Inl e)
  then show ?thesis by (simp add: addTab_ui_def)
next
  case (Inr s)
  show ?thesis
  proof (cases "maxTabs b \<le> length (tabs b)")
    case True
    with Inr show ?thesis by (simp add: addTab_ui_def addTab_def)
  next
    case False
    with Inr have "map tab_id (tabs (addTab_ui pu b u now now')) =
        map tab_id (tabs b) @ [js ''tab-'' @ decimal now]"
      by (simp add: addTab_ui_def addTab_def Let_def reg_frame switchTab_reg new_tab_def)
    then show ?thesis by simp
  qed
qed

lemma closeTab_ids:
  "map tab_id (tabs (closeTab b i)) = map tab_id (tabs b) \<or>
   map tab_id (tabs (closeTab b i)) = remove1 i (map tab_id (tabs b))"
proof (cases "length (tabs b) = 1")
  case True
  then show ?thesis by (simp add: closeTab_def)
next
  case False
  define b2 where "b2 = removeTab b i\<lparr>tabBar := remove_element i (tabBar (removeTab b i))\<rparr>"
  have 2: "map tab_id (tabs b2) = remove1 i (map tab_id (tabs b))"
    by (simp add: b2_def removeTab_ids)
  have "map tab_id (tabs (switchTab b2 a)) = map tab_id (tabs b2)"
    "map tab_id (tabs (showWelcomeScreen b2)) = map tab_id (tabs b2)" for a
    by (simp_all add: switchTab_reg reg_frame)
  moreover have "closeTab b i = showWelcomeScreen b2 \<or> (\<exists>a. closeTab b i = switchTab b2 a)"
    using False by (auto simp: closeTab_def Let_def b2_def split: option.splits)
  ultimately have "map tab_id (tabs (closeTab b i)) = map tab_id (tabs b2)"
    by metis
  with 2 show ?thesis by simp
qed

text \<open>
  No event changes the identifier of a tab: an event leaves the identifiers of the tabs as
  they are, or appends the identifier made from the clock reading, or removes the first
  occurrence of one.
\<close>

lemma step_tab_ids:
  "map tab_id (tabs (step pu b e)) = map tab_id (tabs b) \<or>
   (\<exists>now. map tab_id (tabs (step pu b e)) = map tab_id (tabs b) @ [js ''tab-'' @ decimal now]) \<or>
   (\<exists>i. map tab_id (tabs (step pu b e)) = remove1 i (map tab_id (tabs b)))"
proof (cases e)
  case (DOMContentLoaded n n')
  with addTab_ui_ids [of pu b "[]" n n'] show ?thesis
    by (auto simp: step_def initBrowser_def)
next
  case (ClickAddTab n n')
  with addTab_ui_ids [of pu b "[]" n n'] show ?thesis
    by (auto simp: step_def)
next
  case (ClickCloseTab k)
  with closeTab_ids [of b "el_id (tabBar b ! k)"] show ?thesis
    by (auto simp: step_def)
qed (simp_all add: step_def reg_frame switchTab_reg split: option.splits)

end
